theory Spec2Isabelle
  imports Complex_Main "HOL-Library.Multiset"
begin

section \<open>The CATMAID data source of neuroglancer\<close>

text \<open>
  A shallow embedding of \<^verbatim>\<open>src/neuroglancer/datasource/catmaid/frontend.ts\<close>.
  Promises are modelled by their eventual outcome: a rejected promise and a thrown
  exception are both \<open>Inl\<close> of the rejection value, a fulfilled promise is \<open>Inr\<close> of
  its value. JavaScript numbers are modelled as mathematical reals (integers where a
  verifier guarantees one). The vectors of a \<open>StackInfo\<close> are modelled by the real values
  of their elements; the vectors that \<^verbatim>\<open>getSources\<close> fills are modelled as
  \<^verbatim>\<open>Float32Array\<close>s, with the rounding and the overflow of single precision. Strings
  are lists of code units.
\<close>

subsection \<open>Rejection values\<close>

text \<open>
  \<open>Error msg\<close> is \<^verbatim>\<open>new Error(msg)\<close> thrown by the code of this file,
  \<open>ValidationError\<close> is what the JSON verifiers throw (with the chain of property names
  added by \<^verbatim>\<open>verifyObjectProperty\<close>), \<open>TypeError\<close> is the built-in error of a
  property access on \<^verbatim>\<open>null\<close> or \<^verbatim>\<open>undefined\<close>, \<open>TransportError\<close> is
  whatever the HTTP collaborator rejects with, and \<open>RejectNull\<close> is the value
  \<^verbatim>\<open>null\<close> used by \<^verbatim>\<open>Promise.reject(null)\<close>.
\<close>

datatype error =
    Error string
  | ValidationError "string list" string
  | TypeError
  | TransportError string
  | RejectNull

definition bindE :: "error + 'a \<Rightarrow> ('a \<Rightarrow> error + 'b) \<Rightarrow> error + 'b" where
  "bindE r f = (case r of Inl e \<Rightarrow> Inl e | Inr a \<Rightarrow> f a)"

text \<open>\<^verbatim>\<open>Array.prototype.map\<close> with a callback that may throw: the first exception
  ends the traversal.\<close>

fun mapE :: "('a \<Rightarrow> error + 'b) \<Rightarrow> 'a list \<Rightarrow> error + 'b list" where
  "mapE f [] = Inr []"
| "mapE f (x # xs) =
     (case f x of
        Inl e \<Rightarrow> Inl e
      | Inr y \<Rightarrow> (case mapE f xs of Inl e \<Rightarrow> Inl e | Inr ys \<Rightarrow> Inr (y # ys)))"

subsection \<open>Strings and numbers\<close>

definition digitChar :: "nat \<Rightarrow> char" where
  "digitChar d = ''0123456789'' ! d"

fun showNat :: "nat \<Rightarrow> string" where
  "showNat n = (if n < 10 then [digitChar n] else showNat (n div 10) @ [digitChar (n mod 10)])"

declare showNat.simps [simp del]

text \<open>\<^verbatim>\<open>Number.prototype.toString\<close> of an integer value (decimal digits, a leading
  minus sign for negative values; the exponent notation of values from \<open>10^21\<close> on is
  not modelled).\<close>

definition toString :: "int \<Rightarrow> string" where
  "toString i = (if i < 0 then CHR ''-'' # showNat (nat (- i)) else showNat (nat i))"

subsection \<open>JavaScript \<^verbatim>\<open>Map\<close>: an association list in insertion order\<close>

type_synonym ('k, 'v) jsmap = "('k \<times> 'v) list"

definition mapGet :: "('k, 'v) jsmap \<Rightarrow> 'k \<Rightarrow> 'v option" where
  "mapGet m k = map_of m k"

text \<open>\<^verbatim>\<open>Map.prototype.set\<close>: an existing key keeps its place and gets the new value, a
  new key is appended.\<close>

fun mapSet :: "'k \<Rightarrow> 'v \<Rightarrow> ('k, 'v) jsmap \<Rightarrow> ('k, 'v) jsmap" where
  "mapSet k v [] = [(k, v)]"
| "mapSet k v ((k', v') # m) = (if k' = k then (k, v) # m else (k', v') # mapSet k v m)"

definition mapValues :: "('k, 'v) jsmap \<Rightarrow> 'v list" where
  "mapValues m = map snd m"

subsection \<open>Data model\<close>

type_synonym vec3 = "real \<times> real \<times> real"

record StackMirror =
  m_id :: int
  m_title :: string
  fileExtension :: string
  tileHeight :: int
  tileWidth :: int
  tileSourceType :: int
  m_url :: string
  position :: int

record StackInfo =
  dimension :: vec3
  translation :: vec3
  resolution :: vec3
  zoomLevels :: int
  sid :: int
  mirrors :: "(string, StackMirror) jsmap"

record StackIdentifier =
  s_id :: int
  s_title :: string
  comment :: string

record ProjectInfo =
  p_id :: int
  p_title :: string
  stacks :: "(string, StackIdentifier) jsmap"

subsection \<open>JSON values and the verifiers of \<^verbatim>\<open>neuroglancer/util/json\<close>\<close>

datatype json =
    JNull
  | JBool bool
  | JNum real
  | JStr string
  | JArr "json list"
  | JObj "(string \<times> json) list"

text \<open>A value handed to a verifier is \<open>None\<close> when it is \<^verbatim>\<open>undefined\<close>.\<close>

text \<open>Modelled from the spec: \<^verbatim>\<open>verifyInt\<close>, \<^verbatim>\<open>verifyFloat\<close>,
  \<^verbatim>\<open>verifyString\<close>, \<^verbatim>\<open>verifyObject\<close>, \<^verbatim>\<open>verifyObjectProperty\<close> and
  \<^verbatim>\<open>parseArray\<close> live in \<^verbatim>\<open>neuroglancer/util/json\<close>, which is not among the
  sources. Each accepts the primitive type it names and fails with a descriptive error
  otherwise; \<^verbatim>\<open>verifyObjectProperty\<close> adds the property name to the error.\<close>

definition verifyInt :: "json option \<Rightarrow> error + int" where
  "verifyInt v =
     (case v of
        Some (JNum r) \<Rightarrow>
          (if of_int \<lfloor>r\<rfloor> = r then Inr \<lfloor>r\<rfloor> else Inl (ValidationError [] ''Expected integer''))
      | _ \<Rightarrow> Inl (ValidationError [] ''Expected integer''))"

definition verifyFloat :: "json option \<Rightarrow> error + real" where
  "verifyFloat v =
     (case v of
        Some (JNum r) \<Rightarrow> Inr r
      | _ \<Rightarrow> Inl (ValidationError [] ''Expected floating-point number''))"

definition verifyString :: "json option \<Rightarrow> error + string" where
  "verifyString v =
     (case v of
        Some (JStr s) \<Rightarrow> Inr s
      | _ \<Rightarrow> Inl (ValidationError [] ''Expected string''))"

definition verifyObject :: "json option \<Rightarrow> error + json" where
  "verifyObject v =
     (case v of
        Some (JObj fs) \<Rightarrow> Inr (JObj fs)
      | _ \<Rightarrow> Inl (ValidationError [] ''Expected JSON object''))"

definition addProperty :: "string \<Rightarrow> error \<Rightarrow> error" where
  "addProperty name e =
     (case e of ValidationError path msg \<Rightarrow> ValidationError (name # path) msg | _ \<Rightarrow> e)"

definition verifyObjectProperty ::
  "json option \<Rightarrow> string \<Rightarrow> (json option \<Rightarrow> error + 'a) \<Rightarrow> error + 'a" where
  "verifyObjectProperty obj name validator =
     (case obj of
        None \<Rightarrow> Inl TypeError
      | Some JNull \<Rightarrow> Inl TypeError
      | Some (JObj fs) \<Rightarrow>
          (case validator (map_of fs name) of Inl e \<Rightarrow> Inl (addProperty name e) | Inr a \<Rightarrow> Inr a)
      | Some _ \<Rightarrow>
          (case validator None of Inl e \<Rightarrow> Inl (addProperty name e) | Inr a \<Rightarrow> Inr a))"

definition parseArray :: "json option \<Rightarrow> (json option \<Rightarrow> error + 'a) \<Rightarrow> error + 'a list" where
  "parseArray obj parser =
     (case obj of
        Some (JArr xs) \<Rightarrow> mapE (\<lambda>x. parser (Some x)) xs
      | _ \<Rightarrow> Inl (ValidationError [] ''Expected array''))"

subsection \<open>Metadata parsers\<close>

definition parseStackMirror :: "json option \<Rightarrow> error + StackMirror" where
  "parseStackMirror obj =
     bindE (verifyObjectProperty obj ''id'' verifyInt) (\<lambda>id.
     bindE (verifyObjectProperty obj ''title'' verifyString) (\<lambda>title.
     bindE (verifyObjectProperty obj ''file_extension'' verifyString) (\<lambda>fileExtension.
     bindE (verifyObjectProperty obj ''tile_height'' verifyInt) (\<lambda>tileHeight.
     bindE (verifyObjectProperty obj ''tile_width'' verifyInt) (\<lambda>tileWidth.
     bindE (verifyObjectProperty obj ''tile_source_type'' verifyInt) (\<lambda>tileSourceType.
     bindE (verifyObjectProperty obj ''image_base'' verifyString) (\<lambda>url.
     bindE (verifyObjectProperty obj ''position'' verifyInt) (\<lambda>position.
     Inr \<lparr>m_id = id, m_title = title, fileExtension = fileExtension,
          tileHeight = tileHeight, tileWidth = tileWidth, tileSourceType = tileSourceType,
          m_url = url, position = position\<rparr>))))))))"

definition verifyObjectVec ::
  "json option \<Rightarrow> string \<Rightarrow> (json option \<Rightarrow> error + real) \<Rightarrow> error + vec3" where
  "verifyObjectVec obj vecField typeVerifier =
     verifyObjectProperty obj vecField (\<lambda>vecObj.
       bindE (verifyObjectProperty vecObj ''x'' typeVerifier) (\<lambda>x.
       bindE (verifyObjectProperty vecObj ''y'' typeVerifier) (\<lambda>y.
       bindE (verifyObjectProperty vecObj ''z'' typeVerifier) (\<lambda>z.
       Inr (x, y, z)))))"

definition verifyIntAsNumber :: "json option \<Rightarrow> error + real" where
  "verifyIntAsNumber v = bindE (verifyInt v) (\<lambda>i. Inr (of_int i))"

definition parseStackInfo :: "json option \<Rightarrow> error + StackInfo" where
  "parseStackInfo obj =
     bindE (verifyObject obj) (\<lambda>_.
     bindE (verifyObjectVec obj ''dimension'' verifyIntAsNumber) (\<lambda>dimension.
     bindE (verifyObjectVec obj ''translation'' verifyIntAsNumber) (\<lambda>translation.
     bindE (verifyObjectVec obj ''resolution'' verifyFloat) (\<lambda>resolution.
     bindE (verifyObjectProperty obj ''num_zoom_levels'' verifyInt) (\<lambda>zoomLevels.
     bindE (verifyObjectProperty obj ''sid'' verifyInt) (\<lambda>id.
     bindE (verifyObjectProperty obj ''mirrors'' (\<lambda>mirrorsArrObj.
              parseArray mirrorsArrObj parseStackMirror)) (\<lambda>mirrorsArr.
     Inr \<lparr>dimension = dimension, translation = translation, resolution = resolution,
          zoomLevels = zoomLevels, sid = id,
          mirrors = foldl (\<lambda>mirrors m. mapSet (toString (m_id m)) m mirrors) [] mirrorsArr\<rparr>)))))))"

definition parseStackDesc :: "json option \<Rightarrow> error + StackIdentifier" where
  "parseStackDesc stackDescObj =
     bindE (verifyObjectProperty stackDescObj ''id'' verifyInt) (\<lambda>id.
     bindE (verifyObjectProperty stackDescObj ''title'' verifyString) (\<lambda>title.
     bindE (verifyObjectProperty stackDescObj ''comment'' verifyString) (\<lambda>comment.
     Inr \<lparr>s_id = id, s_title = title, comment = comment\<rparr>)))"

definition parseProject :: "json \<Rightarrow> error + ProjectInfo" where
  "parseProject projectObj =
     bindE (verifyObjectProperty (Some projectObj) ''id'' verifyInt) (\<lambda>id.
     bindE (verifyObjectProperty (Some projectObj) ''title'' verifyString) (\<lambda>title.
     bindE (verifyObjectProperty (Some projectObj) ''stacks'' (\<lambda>x.
              bindE (parseArray x parseStackDesc) (\<lambda>stackInfoArr.
              Inr (foldl (\<lambda>stacks stackInfo. mapSet (toString (s_id stackInfo)) stackInfo stacks)
                     [] stackInfoArr)))) (\<lambda>stacks.
     Inr \<lparr>p_id = id, p_title = title, stacks = stacks\<rparr>)))"

text \<open>The loop over \<^verbatim>\<open>projectObjs\<close>: each project is parsed and stored under its
  stringified id; the first exception ends the loop.\<close>

fun parseProjectsLoop ::
  "json list \<Rightarrow> (string, ProjectInfo) jsmap \<Rightarrow> error + (string, ProjectInfo) jsmap" where
  "parseProjectsLoop [] projects = Inr projects"
| "parseProjectsLoop (projectObj # rest) projects =
     (case parseProject projectObj of
        Inl e \<Rightarrow> Inl e
      | Inr p \<Rightarrow> parseProjectsLoop rest (mapSet (toString (p_id p)) p projects))"

definition parseProjectsList :: "json option \<Rightarrow> error + (string, ProjectInfo) jsmap" where
  "parseProjectsList obj =
     bindE (parseArray obj verifyObject) (\<lambda>projectObjs.
       if length projectObjs < 1 then Inl (Error ''No projects found in projects list.'')
       else parseProjectsLoop projectObjs [])"

subsection \<open>Pyramid descriptor builder\<close>

datatype TileEncoding = JPEG

datatype DataType = UINT8

text \<open>An element of a \<^verbatim>\<open>Float32Array\<close>: a real number, an infinity or \<open>NaN\<close>.\<close>

datatype stored = Stored real | StoredInfinity | StoredNegInfinity | StoredNaN

type_synonym svec3 = "stored \<times> stored \<times> stored"

text \<open>Rounding to the nearest integer, a tie going to the even one.\<close>

definition roundEven :: "real \<Rightarrow> int" where
  "roundEven q =
     (if q - of_int \<lfloor>q\<rfloor> < 1 / 2 then \<lfloor>q\<rfloor>
      else if 1 / 2 < q - of_int \<lfloor>q\<rfloor> then \<lfloor>q\<rfloor> + 1
      else if even \<lfloor>q\<rfloor> then \<lfloor>q\<rfloor>
      else \<lfloor>q\<rfloor> + 1)"

text \<open>
  Storing a number into a \<^verbatim>\<open>Float32Array\<close> (\<^verbatim>\<open>Math.fround\<close>): the nearest
  single-precision value, a tie going to the even significand. A value with binary
  exponent \<open>e\<close> is a multiple of \<open>2 ^ (e - 23)\<close> (24 significant bits), the exponent
  being at least \<open>-126\<close> (below it the values are the multiples of \<open>2 ^ (-149)\<close>), and a
  result of magnitude \<open>2 ^ 128\<close> or more is an infinity.
\<close>

definition fround :: "real \<Rightarrow> stored" where
  "fround x =
     (if x = 0 then Stored 0
      else
        (let e = max \<lfloor>log 2 \<bar>x\<bar>\<rfloor> (- 126);
             ulp = 2 powr (of_int (e - 23));
             y = of_int (roundEven (x / ulp)) * ulp
         in if 2 ^ 128 \<le> \<bar>y\<bar>
            then (if 0 < x then StoredInfinity else StoredNegInfinity)
            else Stored y))"

text \<open>
  \<^verbatim>\<open>voxelSize[i] = voxelSize[i] * Math.pow(2, level)\<close> for an element that holds the real
  \<open>r\<close>. \<^verbatim>\<open>Math.pow(2, level)\<close> is the exact power below level 1024 and
  \<open>Infinity\<close> from there on, where the product is an infinity, or \<open>NaN\<close> for a zero
  element. Below level 1024 the double-precision product of a single-precision value and
  the power is exact unless it overflows, and then it is stored as the infinity that the
  exact product is stored as.
\<close>

definition timesPow2 :: "real \<Rightarrow> nat \<Rightarrow> stored" where
  "timesPow2 r level =
     (if level < 1024 then fround (r * 2 ^ level)
      else if r = 0 then StoredNaN
      else if 0 < r then StoredInfinity
      else StoredNegInfinity)"

text \<open>The option bag handed to \<^verbatim>\<open>VolumeChunkSpecification.make\<close>, the parameter bag
  handed to \<^verbatim>\<open>chunkManager.getChunkSource\<close>, and the chunk source itself, which the
  registry builds from the two (the registry is not among the sources; a chunk source
  is identified with what it is built from).\<close>

record 'o ChunkSpecOptions =
  voxelSize :: svec3
  chunkDataSize :: svec3
  numChannels :: nat
  dataType :: DataType
  lowerVoxelBound :: svec3
  upperVoxelBound :: svec3
  volumeSourceOptions :: 'o

record TileSourceParameters =
  sourceBaseUrls :: string
  encoding :: TileEncoding
  zoomLevel :: nat
  tp_tileHeight :: int
  tp_tileWidth :: int
  tp_tileSourceType :: int

record 'o CatmaidTileSource =
  spec :: "'o ChunkSpecOptions"
  parameters :: TileSourceParameters

record MultiscaleTileSource =
  src_url :: string
  stackInfo :: StackInfo
  mirrorId :: string

text \<open>The values \<^verbatim>\<open>Math.log2\<close>, \<^verbatim>\<open>Math.max\<close> and \<^verbatim>\<open>Math.ceil\<close> can
  produce from finite arguments: a real number, \<open>-Infinity\<close> (the logarithm of zero)
  or \<open>NaN\<close> (the logarithm of a negative number).\<close>

datatype jsnum = NaN | NegInfinity | Finite real

definition log2 :: "real \<Rightarrow> jsnum" where
  "log2 x = (if x < 0 then NaN else if x = 0 then NegInfinity else Finite (log 2 x))"

fun jsMax :: "jsnum \<Rightarrow> jsnum \<Rightarrow> jsnum" where
  "jsMax NaN _ = NaN"
| "jsMax _ NaN = NaN"
| "jsMax NegInfinity b = b"
| "jsMax a NegInfinity = a"
| "jsMax (Finite a) (Finite b) = Finite (max a b)"

fun jsCeil :: "jsnum \<Rightarrow> jsnum" where
  "jsCeil (Finite r) = Finite (of_int \<lceil>r\<rceil>)"
| "jsCeil n = n"

text \<open>The loop test \<^verbatim>\<open>level <= numLevels\<close>: false for \<open>NaN\<close> and \<open>-Infinity\<close>.\<close>

fun jsLe :: "nat \<Rightarrow> jsnum \<Rightarrow> bool" where
  "jsLe level (Finite r) = (real level \<le> r)"
| "jsLe level _ = False"

text \<open>
  The body of the level loop. \<open>voxelSize\<close> is a copy of the resolution whose first two
  elements are multiplied by \<^verbatim>\<open>Math.pow(2, level)\<close>; \<open>chunkDataSize\<close> is
  \<open>(1, 1, 1)\<close> whose first two elements are overwritten with the tile width and height,
  stored in single precision; the lower bound is the zero vector and the upper bound a
  copy of the dimension.
\<close>

definition levelSource ::
  "StackInfo \<Rightarrow> StackMirror \<Rightarrow> 'o \<Rightarrow> nat \<Rightarrow> 'o CatmaidTileSource" where
  "levelSource si mirror opts level =
     (case resolution si of (rx, ry, rz) \<Rightarrow>
      case dimension si of (dx, dy, dz) \<Rightarrow>
        \<lparr>spec =
           \<lparr>voxelSize = (timesPow2 rx level, timesPow2 ry level, Stored rz),
            chunkDataSize =
              (fround (of_int (tileWidth mirror)), fround (of_int (tileHeight mirror)), Stored 1),
            numChannels = 1,
            dataType = UINT8,
            lowerVoxelBound = (Stored 0, Stored 0, Stored 0),
            upperVoxelBound = (Stored dx, Stored dy, Stored dz),
            volumeSourceOptions = opts\<rparr>,
         parameters =
           \<lparr>sourceBaseUrls = m_url mirror,
            encoding = JPEG,
            zoomLevel = level,
            tp_tileHeight = tileHeight mirror,
            tp_tileWidth = tileWidth mirror,
            tp_tileSourceType = tileSourceType mirror\<rparr>\<rparr>)"

text \<open>\<^verbatim>\<open>for (let level = 0; level <= numLevels; level++) { ...; sources.push([source]); }\<close>\<close>

function getSourcesLoop ::
  "StackInfo \<Rightarrow> StackMirror \<Rightarrow> 'o \<Rightarrow> jsnum \<Rightarrow> nat \<Rightarrow> 'o CatmaidTileSource list list
     \<Rightarrow> 'o CatmaidTileSource list list" where
  "getSourcesLoop si mirror opts numLevels level sources =
     (if jsLe level numLevels
      then getSourcesLoop si mirror opts numLevels (level + 1)
             (sources @ [[levelSource si mirror opts level]])
      else sources)"
  by pat_completeness auto
termination
proof (relation "measure (\<lambda>(si, mirror, opts, numLevels, level, sources).
         case numLevels of Finite r \<Rightarrow> nat (\<lfloor>r\<rfloor> + 1) - level | _ \<Rightarrow> 0)")
  show "wf (measure (\<lambda>(si :: StackInfo, mirror :: StackMirror, opts :: 'o, numLevels, level,
         sources :: 'o CatmaidTileSource list list).
         case numLevels of Finite r \<Rightarrow> nat (\<lfloor>r\<rfloor> + 1) - level | _ \<Rightarrow> 0))"
    by simp
next
  fix si :: StackInfo and mirror :: StackMirror and opts :: 'o and numLevels level
    and sources :: "'o CatmaidTileSource list list"
  assume le: "jsLe level numLevels"
  then obtain r where r: "numLevels = Finite r" "real level \<le> r"
    by (cases numLevels) auto
  then have "int level \<le> \<lfloor>r\<rfloor>"
    by (simp add: le_floor_iff)
  then have "nat (\<lfloor>r\<rfloor> + 1) - (level + 1) < nat (\<lfloor>r\<rfloor> + 1) - level"
    by linarith
  with r show "((si, mirror, opts, numLevels, level + 1,
                 sources @ [[levelSource si mirror opts level]]),
                (si, mirror, opts, numLevels, level, sources))
        \<in> measure (\<lambda>(si, mirror, opts, numLevels, level, sources).
             case numLevels of Finite r \<Rightarrow> nat (\<lfloor>r\<rfloor> + 1) - level | _ \<Rightarrow> 0)"
    by simp
qed

declare getSourcesLoop.simps [simp del]

definition effectiveNumLevels :: "StackInfo \<Rightarrow> jsnum" where
  "effectiveNumLevels si =
     (if zoomLevels si < 0
      then (case dimension si of (dx, dy, dz) \<Rightarrow>
              jsCeil (jsMax (log2 (dx / 1024)) (log2 (dy / 1024))))
      else Finite (of_int (zoomLevels si)))"

definition getSources ::
  "MultiscaleTileSource \<Rightarrow> 'o \<Rightarrow> error + 'o CatmaidTileSource list list" where
  "getSources this opts =
     (case mapGet (mirrors (stackInfo this)) (mirrorId this) of
        None \<Rightarrow> Inl (Error (''Unable to find mirror '' @ mirrorId this @ '' for stack''))
      | Some mirror \<Rightarrow>
          Inr (getSourcesLoop (stackInfo this) mirror opts
                 (effectiveNumLevels (stackInfo this)) 0 []))"

subsection \<open>String operations and regular expressions\<close>

text \<open>\<^verbatim>\<open>String.prototype.split\<close> with a one-character separator: the result is never
  empty, and the empty string gives one empty segment.\<close>

fun split :: "char \<Rightarrow> string \<Rightarrow> string list" where
  "split c [] = [[]]"
| "split c (x # xs) =
     (if x = c then [] # split c xs
      else (case split c xs of seg # segs \<Rightarrow> (x # seg) # segs | [] \<Rightarrow> [[x]]))"

fun join :: "string \<Rightarrow> string list \<Rightarrow> string" where
  "join sep [] = []"
| "join sep [x] = x"
| "join sep (x # y # ys) = x @ sep @ join sep (y # ys)"

text \<open>\<^verbatim>\<open>Array.prototype.pop\<close>: the last element (\<^verbatim>\<open>undefined\<close> for an empty array)
  and the array without it.\<close>

definition pop :: "'a list \<Rightarrow> 'a option \<times> 'a list" where
  "pop xs = (if xs = [] then (None, []) else (Some (last xs), butlast xs))"

text \<open>\<^verbatim>\<open>JSON.stringify\<close> of a string.\<close>

definition hexDigit :: "nat \<Rightarrow> char" where
  "hexDigit d = ''0123456789abcdef'' ! d"

definition quoteChar :: "char \<Rightarrow> string" where
  "quoteChar c =
     (if c = CHR 0x22 then [CHR 0x5C, CHR 0x22]
      else if c = CHR 0x5C then [CHR 0x5C, CHR 0x5C]
      else if c = CHR 0x08 then [CHR 0x5C, CHR ''b'']
      else if c = CHR 0x09 then [CHR 0x5C, CHR ''t'']
      else if c = CHR 0x0A then [CHR 0x5C, CHR ''n'']
      else if c = CHR 0x0C then [CHR 0x5C, CHR ''f'']
      else if c = CHR 0x0D then [CHR 0x5C, CHR ''r'']
      else if of_char c < (32 :: nat)
        then [CHR 0x5C, CHR ''u'', CHR ''0'', CHR ''0'',
              hexDigit (of_char c div 16), hexDigit (of_char c mod 16)]
      else [c])"

definition jsonStringify :: "string \<Rightarrow> string" where
  "jsonStringify s = [CHR 0x22] @ concat (map quoteChar s) @ [CHR 0x22]"

text \<open>
  The regular expressions of this file are anchored sequences of literals, alternatives of
  literals and greedy repetitions of one character class. \<open>matchPieces\<close> is the
  backtracking matcher of ECMAScript on such a sequence: an alternative is tried in the
  order written, a greedy repetition takes the longest run first and gives characters
  back one at a time, and each choice is kept only if the rest of the pattern matches up to
  the end of the input. The result lists the text matched by each piece.
\<close>

datatype charClass = Dot | NoneOf string

text \<open>\<^verbatim>\<open>.\<close> matches every character but a line terminator (of which line feed and
  carriage return are code units below 256).\<close>

fun inClass :: "charClass \<Rightarrow> char \<Rightarrow> bool" where
  "inClass Dot c = (c \<noteq> CHR 0x0A \<and> c \<noteq> CHR 0x0D)"
| "inClass (NoneOf cs) c = (c \<notin> set cs)"

datatype piece = Lit string | Alt "string list" | Star charClass | Plus charClass

fun firstSome :: "('a \<Rightarrow> 'b option) \<Rightarrow> 'a list \<Rightarrow> 'b option" where
  "firstSome f [] = None"
| "firstSome f (x # xs) = (case f x of Some y \<Rightarrow> Some y | None \<Rightarrow> firstSome f xs)"

fun matchPieces :: "piece list \<Rightarrow> string \<Rightarrow> string list option" where
  "matchPieces [] s = (if s = [] then Some [] else None)"
| "matchPieces (Lit l # ps) s =
     (if take (length l) s = l
      then map_option ((#) l) (matchPieces ps (drop (length l) s))
      else None)"
| "matchPieces (Alt ls # ps) s =
     firstSome (\<lambda>l. if take (length l) s = l
                     then map_option ((#) l) (matchPieces ps (drop (length l) s))
                     else None) ls"
| "matchPieces (Star c # ps) s =
     firstSome (\<lambda>k. map_option ((#) (take k s)) (matchPieces ps (drop k s)))
       (rev [0 ..< Suc (length (takeWhile (inClass c) s))])"
| "matchPieces (Plus c # ps) s =
     firstSome (\<lambda>k. map_option ((#) (take k s)) (matchPieces ps (drop k s)))
       (rev [1 ..< Suc (length (takeWhile (inClass c) s))])"

text \<open>\<^verbatim>\<open>/^((?:http|https):\/\/[^?]+)\/(.*)\/(.*)\/(.*)$/\<close>\<close>

definition urlPatternComplete :: "piece list" where
  "urlPatternComplete =
     [Alt [''http'', ''https''], Lit ''://'', Plus (NoneOf ''?''),
      Lit ''/'', Star Dot, Lit ''/'', Star Dot, Lit ''/'', Star Dot]"

text \<open>\<^verbatim>\<open>/^((?:http|https):\/\/[^\/?]+)\/(.*)$/\<close>\<close>

definition urlPattern :: "piece list" where
  "urlPattern =
     [Alt [''http'', ''https''], Lit ''://'', Plus (NoneOf ''/?''), Lit ''/'', Star Dot]"

subsection \<open>Collaborators\<close>

record HttpRequest =
  req_hostnames :: "string list"
  req_path :: string

text \<open>
  What the code takes from its surroundings: the conversions \<^verbatim>\<open>Number(string)\<close> and
  number to string of the language (over a type \<open>'n\<close> of numbers), the outcome of
  \<^verbatim>\<open>sendHttpRequest(openShardedHttpRequest(hostnames, path), 'json')\<close> for each
  request, and \<^verbatim>\<open>getPrefixMatchesWithDescriptions\<close>, which sees the candidates through
  the two extractor functions it is given, that is as a list of pairs of key and
  description (its result is a value of type \<open>'c\<close>).
\<close>

record ('n, 'c) env =
  jsNumber :: "string \<Rightarrow> 'n"
  jsString :: "'n \<Rightarrow> string"
  sendHttpRequest :: "HttpRequest \<Rightarrow> error + json"
  getPrefixMatchesWithDescriptions :: "string \<Rightarrow> (string \<times> string) list \<Rightarrow> 'c"

text \<open>A promise is modelled by the metadata lookups started on the way to its settlement,
  in order, and its outcome.\<close>

datatype 'n call = CallProjectsList "string list" | CallStackInfo string 'n 'n

type_synonym ('n, 'a) promise = "'n call list \<times> (error + 'a)"

text \<open>\<^verbatim>\<open>p.then(f)\<close> and \<^verbatim>\<open>p.catch(h)\<close>; an exception thrown by \<open>f\<close> rejects the
  result, and \<open>h\<close> returns a promise (or throws, which is a rejected promise).\<close>

definition thenP :: "('n, 'a) promise \<Rightarrow> ('a \<Rightarrow> error + 'b) \<Rightarrow> ('n, 'b) promise" where
  "thenP p f = (fst p, bindE (snd p) f)"

definition catchP :: "('n, 'a) promise \<Rightarrow> (error \<Rightarrow> ('n, 'a) promise) \<Rightarrow> ('n, 'a) promise" where
  "catchP p h =
     (case snd p of
        Inr a \<Rightarrow> (fst p, Inr a)
      | Inl e \<Rightarrow> (fst p @ fst (h e), snd (h e)))"

definition throwP :: "error \<Rightarrow> ('n, 'a) promise" where
  "throwP e = ([], Inl e)"

subsection \<open>Metadata fetcher\<close>

text \<open>The memoization of \<^verbatim>\<open>chunkManager.memoize\<close> does not change the outcome of a
  lookup; it is modelled separately below.\<close>

definition getStackInfo ::
  "('n, 'c) env \<Rightarrow> string \<Rightarrow> 'n \<Rightarrow> 'n \<Rightarrow> ('n, StackInfo) promise" where
  "getStackInfo env hostname projectId stackId =
     ([CallStackInfo hostname projectId stackId],
      bindE (sendHttpRequest env
               \<lparr>req_hostnames = [hostname],
                req_path = ''/'' @ jsString env projectId @ ''/stack/''
                             @ jsString env stackId @ ''/info''\<rparr>)
        (\<lambda>j. parseStackInfo (Some j)))"

definition getProjectsList ::
  "('n, 'c) env \<Rightarrow> string list \<Rightarrow> ('n, (string, ProjectInfo) jsmap) promise" where
  "getProjectsList env hostnames =
     ([CallProjectsList hostnames],
      bindE (sendHttpRequest env \<lparr>req_hostnames = hostnames, req_path = ''/projects/''\<rparr>)
        (\<lambda>j. parseProjectsList (Some j)))"

subsection \<open>Completion formatters\<close>

record 'c CompletionResult =
  offset :: int
  completions :: 'c

text \<open>Modelled from the spec: \<^verbatim>\<open>applyCompletionOffset\<close> lives in
  \<^verbatim>\<open>neuroglancer/util/completion\<close>, which is not among the sources. It adds the
  length of the stripped prefix to the offset of a completion result.\<close>

definition applyCompletionOffset :: "int \<Rightarrow> 'c CompletionResult \<Rightarrow> 'c CompletionResult" where
  "applyCompletionOffset off r = r\<lparr>offset := offset r + off\<rparr>"

definition projectCandidates :: "(string, ProjectInfo) jsmap \<Rightarrow> ProjectInfo list" where
  "projectCandidates projectsList = mapValues projectsList"

definition autoCompleteProject ::
  "('n, 'c) env \<Rightarrow> string \<Rightarrow> int \<Rightarrow> (string, ProjectInfo) jsmap \<Rightarrow> 'c CompletionResult" where
  "autoCompleteProject env projectIdPartial off projectsList =
     \<lparr>offset = off,
      completions = getPrefixMatchesWithDescriptions env projectIdPartial
        (map (\<lambda>x. (toString (p_id x) @ ''/'', p_title x)) (projectCandidates projectsList))\<rparr>"

definition stackCandidates :: "ProjectInfo \<Rightarrow> StackIdentifier list" where
  "stackCandidates projectInfo = mapValues (stacks projectInfo)"

definition autoCompleteStack ::
  "('n, 'c) env \<Rightarrow> string \<Rightarrow> string \<Rightarrow> int \<Rightarrow> (string, ProjectInfo) jsmap
     \<Rightarrow> error + 'c CompletionResult" where
  "autoCompleteStack env stackIdPartial projectId off projectsList =
     (case mapGet projectsList projectId of
        None \<Rightarrow> Inl (Error (''Unable to find project '' @ projectId @ '' in projects list''))
      | Some projectInfo \<Rightarrow>
          Inr \<lparr>offset = off,
               completions = getPrefixMatchesWithDescriptions env stackIdPartial
                 (map (\<lambda>x. (toString (s_id x) @ ''/'', s_title x @ '': '' @ comment x))
                    (stackCandidates projectInfo))\<rparr>)"

text \<open>\<^verbatim>\<open>[...mirrorsList.values()].sort((a, b) => a.position - b.position)\<close>; the sort of
  the language is stable.\<close>

definition mirrorCandidates :: "(string, StackMirror) jsmap \<Rightarrow> StackMirror list" where
  "mirrorCandidates mirrorsList = sort_key position (mapValues mirrorsList)"

definition autoCompleteMirror ::
  "('n, 'c) env \<Rightarrow> string \<Rightarrow> int \<Rightarrow> (string, StackMirror) jsmap \<Rightarrow> 'c CompletionResult" where
  "autoCompleteMirror env mirrorIdPartial off mirrorsList =
     \<lparr>offset = off,
      completions = getPrefixMatchesWithDescriptions env mirrorIdPartial
        (map (\<lambda>x. (toString (m_id x), m_title x)) (mirrorCandidates mirrorsList))\<rparr>"

subsection \<open>Path resolver and completer\<close>

text \<open>\<^verbatim>\<open>hostnames[0]\<close>, as \<^verbatim>\<open>join\<close> renders it: the empty string when the array is
  empty.\<close>

definition hostname0 :: "string list \<Rightarrow> string" where
  "hostname0 hostnames = (case hostnames of [] \<Rightarrow> [] | h # _ \<Rightarrow> h)"

text \<open>
  The first \<^verbatim>\<open>pop\<close> is on the result of \<^verbatim>\<open>split\<close>; were it \<^verbatim>\<open>undefined\<close>,
  reading its length would throw. The second and the third are guarded by
  \<^verbatim>\<open>pathSplit.length\<close>, so they are the last element of a non-empty array.
\<close>

definition projectStackMirrorCompleter ::
  "('n, 'c) env \<Rightarrow> string list \<Rightarrow> string \<Rightarrow> ('n, 'c CompletionResult) promise" where
  "projectStackMirrorCompleter env hostnames path =
     (case pop (split CHR ''/'' path) of
        (None, _) \<Rightarrow> throwP TypeError
      | (Some projectId, pathSplit) \<Rightarrow>
          (let url = join ''/'' ([hostname0 hostnames] @ pathSplit);
               off = int (length path) - int (length projectId)
           in catchP
                (thenP (getProjectsList env [url])
                   (\<lambda>projectsList. Inr (autoCompleteProject env projectId off projectsList)))
                (\<lambda>projectError.
                   if pathSplit \<noteq> [] then
                     (let stackId = projectId;
                          projectId = last pathSplit;
                          pathSplit = butlast pathSplit;
                          url = join ''/'' ([hostname0 hostnames] @ pathSplit)
                      in catchP
                           (thenP (getProjectsList env [url])
                              (\<lambda>projectsList.
                                 autoCompleteStack env stackId projectId off projectsList))
                           (\<lambda>stackError.
                              if pathSplit \<noteq> [] then
                                (let mirrorId = stackId;
                                     stackId = projectId;
                                     projectId = last pathSplit;
                                     pathSplit = butlast pathSplit;
                                     url = join ''/'' ([hostname0 hostnames] @ pathSplit)
                                 in thenP
                                      (getStackInfo env url (jsNumber env projectId)
                                         (jsNumber env stackId))
                                      (\<lambda>stackInfo.
                                         Inr (autoCompleteMirror env mirrorId off
                                                (mirrors stackInfo))))
                              else throwP stackError))
                   else throwP projectError)))"

text \<open>\<^verbatim>\<open>url.match(urlPattern)\<close>: the groups \<^verbatim>\<open>match[1]\<close> and \<^verbatim>\<open>match[2]\<close>.\<close>

definition matchUrlPattern :: "string \<Rightarrow> (string \<times> string) option" where
  "matchUrlPattern url =
     (case matchPieces urlPattern url of
        Some [scheme, sep, host, slash, rest] \<Rightarrow> Some (scheme @ sep @ host, rest)
      | _ \<Rightarrow> None)"

definition volumeCompleter ::
  "('n, 'c) env \<Rightarrow> string \<Rightarrow> ('n, 'c CompletionResult) promise" where
  "volumeCompleter env url =
     (case matchUrlPattern url of
        None \<Rightarrow> ([], Inl RejectNull)
      | Some (m1, path) \<Rightarrow>
          thenP (projectStackMirrorCompleter env [m1] path)
            (\<lambda>completions. Inr (applyCompletionOffset (int (length m1) + 1) completions)))"

subsection \<open>Volume resolution\<close>

text \<open>\<^verbatim>\<open>path.match(urlPatternComplete)\<close>: the groups \<^verbatim>\<open>match[1]\<close> to
  \<^verbatim>\<open>match[4]\<close>.\<close>

definition matchUrlPatternComplete ::
  "string \<Rightarrow> (string \<times> string \<times> string \<times> string) option" where
  "matchUrlPatternComplete path =
     (case matchPieces urlPatternComplete path of
        Some [scheme, sep, base, s1, project, s2, stack, s3, mirror] \<Rightarrow>
          Some (scheme @ sep @ base, project, stack, mirror)
      | _ \<Rightarrow> None)"

text \<open>
  The result is \<open>Inl\<close> when \<^verbatim>\<open>getVolume\<close> throws before it returns a promise, and
  \<open>Inr\<close> of the promise otherwise. The constructor of \<^verbatim>\<open>MultiscaleTileSource\<close>
  throws when its \<^verbatim>\<open>stackInfo\<close> is \<^verbatim>\<open>undefined\<close>, which a value parsed by
  \<^verbatim>\<open>parseStackInfo\<close> never is.
\<close>

definition getVolume ::
  "('n, 'c) env \<Rightarrow> string \<Rightarrow> error + ('n, MultiscaleTileSource) promise" where
  "getVolume env path =
     (case matchUrlPatternComplete path of
        None \<Rightarrow> Inl (Error (''Invalid catmaid tile path '' @ jsonStringify path))
      | Some (url, project, stack, mirror) \<Rightarrow>
          Inr (thenP (getStackInfo env url (jsNumber env project) (jsNumber env stack))
                 (\<lambda>stackInfo.
                    Inr \<lparr>src_url = url, stackInfo = stackInfo, mirrorId = mirror\<rparr>)))"

subsection \<open>The memo table of the metadata fetcher\<close>

text \<open>
  Modelled from the spec: \<^verbatim>\<open>chunkManager.memoize.getUncounted\<close> is not among the
  sources. According to the specification it keeps one entry per structural key (type tag
  and request parameters), hands every caller of a key the same promise while the entry
  exists, so that at most one request per key is in flight, and removes the entry of a
  promise that fails.

  A promise is identified by the index of its request in the log of transport requests.
\<close>

datatype 'n memoKey = KeyStackInfo string 'n 'n | KeyProjectsList "string list"

datatype metadata = StackInfoData StackInfo | ProjectsListData "(string, ProjectInfo) jsmap"

record 'n memoState =
  memoTable :: "('n memoKey \<times> nat) list"
  transportLog :: "('n memoKey \<times> HttpRequest) list"
  responses :: "(nat \<times> (error + json)) list"

definition getUncounted ::
  "'n memoState \<Rightarrow> 'n memoKey \<Rightarrow> HttpRequest \<Rightarrow> nat \<times> 'n memoState" where
  "getUncounted st key req =
     (case map_of (memoTable st) key of
        Some h \<Rightarrow> (h, st)
      | None \<Rightarrow>
          (length (transportLog st),
           st\<lparr>memoTable := (key, length (transportLog st)) # memoTable st,
              transportLog := transportLog st @ [(key, req)]\<rparr>))"

definition getStackInfoMemo ::
  "('n \<Rightarrow> string) \<Rightarrow> 'n memoState \<Rightarrow> string \<Rightarrow> 'n \<Rightarrow> 'n \<Rightarrow> nat \<times> 'n memoState" where
  "getStackInfoMemo str st hostname projectId stackId =
     getUncounted st (KeyStackInfo hostname projectId stackId)
       \<lparr>req_hostnames = [hostname],
        req_path = ''/'' @ str projectId @ ''/stack/'' @ str stackId @ ''/info''\<rparr>"

definition getProjectsListMemo ::
  "'n memoState \<Rightarrow> string list \<Rightarrow> nat \<times> 'n memoState" where
  "getProjectsListMemo st hostnames =
     getUncounted st (KeyProjectsList hostnames)
       \<lparr>req_hostnames = hostnames, req_path = ''/projects/''\<rparr>"

text \<open>The continuation \<^verbatim>\<open>.then(parseStackInfo)\<close> or \<^verbatim>\<open>.then(parseProjectsList)\<close>
  of the memoized promise.\<close>

definition parseFor :: "'n memoKey \<Rightarrow> error + json \<Rightarrow> error + metadata" where
  "parseFor key r =
     (case key of
        KeyStackInfo _ _ _ \<Rightarrow>
          bindE r (\<lambda>j. bindE (parseStackInfo (Some j)) (\<lambda>si. Inr (StackInfoData si)))
      | KeyProjectsList _ \<Rightarrow>
          bindE r (\<lambda>j. bindE (parseProjectsList (Some j)) (\<lambda>pl. Inr (ProjectsListData pl))))"

text \<open>The transport answers request \<open>h\<close> with \<open>r\<close>; a failed promise leaves the table.\<close>

definition settle :: "'n memoState \<Rightarrow> nat \<Rightarrow> error + json \<Rightarrow> 'n memoState" where
  "settle st h r =
     (if h < length (transportLog st) \<and> map_of (responses st) h = None then
        (let key = fst (transportLog st ! h)
         in st\<lparr>responses := (h, r) # responses st,
               memoTable := (if isl (parseFor key r)
                             then filter (\<lambda>(k, _). k \<noteq> key) (memoTable st)
                             else memoTable st)\<rparr>)
      else st)"

text \<open>What a holder of promise \<open>h\<close> observes: nothing while it is pending, then its
  result or failure.\<close>

definition observe :: "'n memoState \<Rightarrow> nat \<Rightarrow> (error + metadata) option" where
  "observe st h =
     (if h < length (transportLog st)
      then map_option (parseFor (fst (transportLog st ! h))) (map_of (responses st) h)
      else None)"

subsection \<open>Well-formed server responses\<close>

text \<open>A JSON value is a well-formed stack descriptor, or a well-formed project with the
  given id, title and stack descriptors, when it is an object with the required
  properties of the required types; further properties are allowed.\<close>

definition isStackDesc :: "StackIdentifier \<Rightarrow> json \<Rightarrow> bool" where
  "isStackDesc sd j =
     (case j of
        JObj fs \<Rightarrow>
          map_of fs ''id'' = Some (JNum (of_int (s_id sd))) \<and>
          map_of fs ''title'' = Some (JStr (s_title sd)) \<and>
          map_of fs ''comment'' = Some (JStr (comment sd))
      | _ \<Rightarrow> False)"

definition isProject :: "int \<Rightarrow> string \<Rightarrow> StackIdentifier list \<Rightarrow> json \<Rightarrow> bool" where
  "isProject i t sds j =
     (case j of
        JObj fs \<Rightarrow>
          map_of fs ''id'' = Some (JNum (of_int i)) \<and>
          map_of fs ''title'' = Some (JStr t) \<and>
          (case map_of fs ''stacks'' of
             Some (JArr ss) \<Rightarrow> list_all2 isStackDesc sds ss
           | _ \<Rightarrow> False)
      | _ \<Rightarrow> False)"

subsection \<open>Example data\<close>

definition exMirror :: "int \<Rightarrow> int \<Rightarrow> StackMirror" where
  "exMirror i pos =
     \<lparr>m_id = i, m_title = ''mirror'', fileExtension = ''jpg'', tileHeight = 256,
      tileWidth = 512, tileSourceType = 1, m_url = ''http://tiles/'', position = pos\<rparr>"

definition exMirrors :: "(string, StackMirror) jsmap" where
  "exMirrors = [(''10'', exMirror 10 3), (''11'', exMirror 11 1), (''12'', exMirror 12 2)]"

definition exProjects :: "(string, ProjectInfo) jsmap" where
  "exProjects =
     [(''1'', \<lparr>p_id = 1, p_title = ''brain'',
               stacks = [(''3'', \<lparr>s_id = 3, s_title = ''em'', comment = ''raw''\<rparr>)]\<rparr>)]"

text \<open>An environment whose transport always fails and whose prefix matcher returns the
  candidates it is given.\<close>

definition exEnvOffline :: "(int, (string \<times> string) list) env" where
  "exEnvOffline =
     \<lparr>jsNumber = (\<lambda>s. 0), jsString = toString,
      sendHttpRequest = (\<lambda>req. Inl (TransportError ''offline'')),
      getPrefixMatchesWithDescriptions = (\<lambda>partial candidates. candidates)\<rparr>"




subsection \<open>Iterations of the level loop\<close>


subsection \<open>What a piece of a pattern matches\<close>

fun accepts :: "piece \<Rightarrow> string \<Rightarrow> bool" where
  "accepts (Lit l) m = (m = l)"
| "accepts (Alt ls) m = (m \<in> set ls)"
| "accepts (Star c) m = list_all (inClass c) m"
| "accepts (Plus c) m = (m \<noteq> [] \<and> list_all (inClass c) m)"

subsection \<open>The path grammar with exactly three trailing segments\<close>

text \<open>A path \<^verbatim>\<open>http(s)://host/project/stack/mirror\<close>: split at the slashes it has six
  parts, the scheme with its colon, the empty part between the two slashes, a non-empty
  host and three segments.\<close>

definition matchesGrammar :: "string \<Rightarrow> bool" where
  "matchesGrammar path =
     (case split CHR ''/'' path of
        [scheme, blank, host, project, stack, mirror] \<Rightarrow>
          (scheme = ''http:'' \<or> scheme = ''https:'') \<and> blank = [] \<and> host \<noteq> []
      | _ \<Rightarrow> False)"

definition exEnvStack :: "(int, (string \<times> string) list) env" where
  "exEnvStack =
     \<lparr>jsNumber = (\<lambda>s. if s = ''1'' then 1 else if s = ''3'' then 3 else 0),
      jsString = toString,
      sendHttpRequest = (\<lambda>req.
        if req = \<lparr>req_hostnames = [''http://host''], req_path = ''/1/stack/3/info''\<rparr>
        then Inr (JObj
          [(''dimension'', JObj [(''x'', JNum 4096), (''y'', JNum 2048), (''z'', JNum 10)]),
           (''translation'', JObj [(''x'', JNum 0), (''y'', JNum 0), (''z'', JNum 0)]),
           (''resolution'', JObj [(''x'', JNum 4), (''y'', JNum 4), (''z'', JNum 40)]),
           (''num_zoom_levels'', JNum 2),
           (''sid'', JNum 3),
           (''mirrors'', JArr [JObj
              [(''id'', JNum 5), (''title'', JStr ''main''), (''file_extension'', JStr ''jpg''),
               (''tile_height'', JNum 256), (''tile_width'', JNum 512),
               (''tile_source_type'', JNum 1), (''image_base'', JStr ''http://tiles/''),
               (''position'', JNum 0)]])])
        else Inl (TransportError ''not found'')),
      getPrefixMatchesWithDescriptions = (\<lambda>partial candidates. candidates)\<rparr>"

definition exStackInfo :: StackInfo where
  "exStackInfo =
     \<lparr>dimension = (4096, 2048, 10), translation = (0, 0, 0), resolution = (4, 4, 40),
      zoomLevels = 2, sid = 3,
      mirrors = [(''5'', \<lparr>m_id = 5, m_title = ''main'', fileExtension = ''jpg'',
                           tileHeight = 256, tileWidth = 512, tileSourceType = 1,
                           m_url = ''http://tiles/'', position = 0\<rparr>)]\<rparr>"

subsection \<open>States of the memo table and its contract\<close>

text \<open>In a well-formed state every answered request is one of the log. The empty state is
  well formed, and \<open>getUncounted\<close> and \<open>settle\<close> keep states well formed.\<close>

definition emptyMemo :: "'n memoState" where
  "emptyMemo = \<lparr>memoTable = [], transportLog = [], responses = []\<rparr>"

definition wfMemo :: "'n memoState \<Rightarrow> bool" where
  "wfMemo st = list_all (\<lambda>(h, r). h < length (transportLog st)) (responses st)"

text \<open>
  The contract of a memoized fetch \<open>call\<close> with key \<open>key\<close> and request \<open>req\<close>, from a
  state \<open>st\<close> and for an answer \<open>r\<close> of the transport: two calls in a row return the same
  promise and add exactly one request to the log; the promise is pending; once the
  transport has answered, the holders of the promise observe the parsed answer; after a
  failure the next call returns a new promise and adds one more request; after a success
  the next call returns the same promise and changes nothing.
\<close>

definition memoContract ::
  "('n memoState \<Rightarrow> nat \<times> 'n memoState) \<Rightarrow> 'n memoKey \<Rightarrow> HttpRequest \<Rightarrow> 'n memoState
     \<Rightarrow> error + json \<Rightarrow> bool" where
  "memoContract call key req st r =
     (let h = fst (call st);
          st2 = snd (call (snd (call st)))
      in fst (call (snd (call st))) = h \<and>
         transportLog st2 = transportLog st @ [(key, req)] \<and>
         observe st2 h = None \<and>
         observe (settle st2 h r) h = Some (parseFor key r) \<and>
         (if isl (parseFor key r)
          then fst (call (settle st2 h r)) \<noteq> h \<and>
               transportLog (snd (call (settle st2 h r))) = transportLog st2 @ [(key, req)]
          else call (settle st2 h r) = (h, settle st2 h r)))"

section \<open>Properties\<close>

subsection \<open>Results, maps and verifiers\<close>

lemma bindE_Inr [simp]: "bindE (Inr a) f = f a"
  by (simp add: bindE_def)

lemma bindE_Inl [simp]: "bindE (Inl e) f = Inl e"
  by (simp add: bindE_def)

lemma verifyInt_of_int [simp]: "verifyInt (Some (JNum (of_int i))) = Inr i"
  by (simp add: verifyInt_def)

lemma verifyString_JStr [simp]: "verifyString (Some (JStr s)) = Inr s"
  by (simp add: verifyString_def)

lemma verifyObjectProperty_JObj:
  "validator (map_of fs name) = Inr a \<Longrightarrow>
   verifyObjectProperty (Some (JObj fs)) name validator = Inr a"
  by (simp add: verifyObjectProperty_def)

lemma mapE_all2:
  assumes "list_all2 (\<lambda>y x. f x = Inr y) ys xs"
  shows "mapE f xs = Inr ys"
  using assms by (induction ys xs rule: list_all2_induct) simp_all

lemma set_mapSet: "set (mapSet k v m) \<subseteq> insert (k, v) (set m)"
  by (induction m) (auto split: if_splits)

lemma keys_mapSet: "fst ` set (mapSet k v m) = insert k (fst ` set m)"
  by (induction k v m rule: mapSet.induct) (simp_all add: insert_commute)

lemma distinct_mapSet: "distinct (map fst m) \<Longrightarrow> distinct (map fst (mapSet k v m))"
  by (induction m) (auto simp: keys_mapSet)

text \<open>Filling a map from a list of values, each stored under its key: the keys stay
  distinct, every entry is one of the values under its own key, and every value's key is
  present.\<close>

lemma foldl_mapSet_inv:
  fixes key :: "'v \<Rightarrow> 'k"
  assumes "distinct (map fst acc)" "\<forall>(k, v) \<in> set acc. k = key v \<and> v \<in> A"
  shows "distinct (map fst (foldl (\<lambda>m x. mapSet (key x) x m) acc xs)) \<and>
         (\<forall>(k, v) \<in> set (foldl (\<lambda>m x. mapSet (key x) x m) acc xs).
            k = key v \<and> v \<in> A \<union> set xs) \<and>
         fst ` set (foldl (\<lambda>m x. mapSet (key x) x m) acc xs) = fst ` set acc \<union> key ` set xs"
  using assms
proof (induction xs arbitrary: acc A)
  case Nil
  then show ?case by auto
next
  case (Cons x xs)
  have d: "distinct (map fst (mapSet (key x) x acc))"
    using Cons.prems(1) by (rule distinct_mapSet)
  have e: "\<forall>(k, v) \<in> set (mapSet (key x) x acc). k = key v \<and> v \<in> insert x A"
    using Cons.prems(2) set_mapSet [of "key x" x acc] by auto
  from Cons.IH [OF d e] show ?case
    by (auto simp: keys_mapSet)
qed

subsection \<open>Parsing the projects list\<close>

lemma parseStackDesc_ok:
  assumes "isStackDesc sd j"
  shows "parseStackDesc (Some j) = Inr sd"
proof -
  from assms obtain fs where j: "j = JObj fs"
    and f: "map_of fs ''id'' = Some (JNum (of_int (s_id sd)))"
      "map_of fs ''title'' = Some (JStr (s_title sd))"
      "map_of fs ''comment'' = Some (JStr (comment sd))"
    by (cases j) (auto simp: isStackDesc_def)
  show ?thesis
    unfolding parseStackDesc_def j
    by (simp add: verifyObjectProperty_JObj f)
qed

lemma parseArray_stackDescs:
  assumes "list_all2 isStackDesc sds ss"
  shows "parseArray (Some (JArr ss)) parseStackDesc = Inr sds"
proof -
  have "list_all2 (\<lambda>y x. parseStackDesc (Some x) = Inr y) sds ss"
    using assms by (rule list_all2_mono) (simp add: parseStackDesc_ok)
  then show ?thesis
    by (simp add: parseArray_def mapE_all2)
qed

lemma parseProject_ok:
  assumes "isProject i t sds j"
  shows "parseProject j =
           Inr \<lparr>p_id = i, p_title = t,
                stacks = foldl (\<lambda>m s. mapSet (toString (s_id s)) s m) [] sds\<rparr>"
proof -
  from assms obtain fs ss where j: "j = JObj fs"
    and f: "map_of fs ''id'' = Some (JNum (of_int i))"
      "map_of fs ''title'' = Some (JStr t)"
      "map_of fs ''stacks'' = Some (JArr ss)"
    and ss: "list_all2 isStackDesc sds ss"
    by (cases j) (auto simp: isProject_def split: option.splits json.splits)
  show ?thesis
    unfolding parseProject_def j
    by (simp add: verifyObjectProperty_JObj f parseArray_stackDescs [OF ss])
qed

lemma parseProjectsList_singleton:
  assumes "isProject i t sds j"
  shows "parseProjectsList (Some (JArr [j])) =
           Inr [(toString i, \<lparr>p_id = i, p_title = t,
                stacks = foldl (\<lambda>m s. mapSet (toString (s_id s)) s m) [] sds\<rparr>)]"
proof -
  from assms obtain fs where j: "j = JObj fs"
    by (cases j) (auto simp: isProject_def)
  have "parseArray (Some (JArr [j])) verifyObject = Inr [j]"
    by (simp add: parseArray_def verifyObject_def j)
  then show ?thesis
    by (simp add: parseProjectsList_def parseProject_ok [OF assms])
qed

text \<open>
  Claim C7. \<open>parseProjectsList\<close> applied to the empty array fails with the error
  ``No projects found in projects list.'', and applied to a list of one well-formed
  project it succeeds: the result has one entry, keyed by the stringified project id,
  whose \<open>stacks\<close> map has distinct keys, holds each stack descriptor under its
  stringified id, and has a key for every stack descriptor of the project.
\<close>

theorem parseProjectsList_empty_and_singleton:
  assumes "isProject i t sds j"
  shows "parseProjectsList (Some (JArr [])) = Inl (Error ''No projects found in projects list.'') \<and>
         (\<exists>stk. parseProjectsList (Some (JArr [j])) =
                   Inr [(toString i, \<lparr>p_id = i, p_title = t, stacks = stk\<rparr>)] \<and>
                distinct (map fst stk) \<and>
                (\<forall>(k, v) \<in> set stk. k = toString (s_id v) \<and> v \<in> set sds) \<and>
                fst ` set stk = (\<lambda>s. toString (s_id s)) ` set sds)"
proof -
  let ?stk = "foldl (\<lambda>m s. mapSet (toString (s_id s)) s m) [] sds"
  have e: "parseProjectsList (Some (JArr [])) = Inl (Error ''No projects found in projects list.'')"
    by (simp add: parseProjectsList_def parseArray_def)
  have "distinct (map fst ([] :: (string \<times> StackIdentifier) list))"
    and "\<forall>(k, v) \<in> set ([] :: (string \<times> StackIdentifier) list). k = toString (s_id v) \<and> v \<in> {}"
    by simp_all
  from foldl_mapSet_inv [where key = "\<lambda>s. toString (s_id s)", OF this, of sds]
  have "distinct (map fst ?stk)"
    and "\<forall>(k, v) \<in> set ?stk. k = toString (s_id v) \<and> v \<in> set sds"
    and "fst ` set ?stk = (\<lambda>s. toString (s_id s)) ` set sds"
    by auto
  with e parseProjectsList_singleton [OF assms] show ?thesis
    by blast
qed

theorem parseProjectsList_empty_and_singleton_witness:
  "isProject 7 ''brain'' [\<lparr>s_id = 3, s_title = ''em'', comment = ''raw''\<rparr>]
     (JObj [(''id'', JNum 7), (''title'', JStr ''brain''),
            (''stacks'', JArr [JObj [(''id'', JNum 3), (''title'', JStr ''em''),
                                     (''comment'', JStr ''raw'')]])]) \<and>
   parseProjectsList (Some (JArr [])) = Inl (Error ''No projects found in projects list.'') \<and>
   map fst (projr (parseProjectsList (Some (JArr
     [JObj [(''id'', JNum 7), (''title'', JStr ''brain''),
            (''stacks'', JArr [JObj [(''id'', JNum 3), (''title'', JStr ''em''),
                                     (''comment'', JStr ''raw'')]])]])))) = [toString 7]"
proof -
  have h: "isProject 7 ''brain'' [\<lparr>s_id = 3, s_title = ''em'', comment = ''raw''\<rparr>]
     (JObj [(''id'', JNum 7), (''title'', JStr ''brain''),
            (''stacks'', JArr [JObj [(''id'', JNum 3), (''title'', JStr ''em''),
                                     (''comment'', JStr ''raw'')]])])"
    by (simp add: isProject_def isStackDesc_def)
  from parseProjectsList_empty_and_singleton [OF h] obtain stk where
    "parseProjectsList (Some (JArr [])) = Inl (Error ''No projects found in projects list.'')"
    "parseProjectsList (Some (JArr
       [JObj [(''id'', JNum 7), (''title'', JStr ''brain''),
              (''stacks'', JArr [JObj [(''id'', JNum 3), (''title'', JStr ''em''),
                                       (''comment'', JStr ''raw'')]])]])) =
     Inr [(toString 7, \<lparr>p_id = 7, p_title = ''brain'', stacks = stk\<rparr>)]"
    by blast
  with h show ?thesis
    by simp
qed

subsection \<open>Completion formatters\<close>

lemma map_position_mirrorCandidates:
  "map position (mirrorCandidates ml) = sort (map position (mapValues ml))"
proof -
  have "mset (map position (sort_key position (mapValues ml))) = mset (map position (mapValues ml))"
    by simp
  moreover have "sorted (map position (sort_key position (mapValues ml)))"
    by (rule sorted_sort_key)
  ultimately show ?thesis
    unfolding mirrorCandidates_def by (rule properties_for_sort [symmetric])
qed

text \<open>
  Claim C8. \<open>autoCompleteMirror\<close> hands the prefix-matching utility the mirrors of the map
  sorted by \<open>position\<close> in ascending order: the candidate list is sorted, it holds the
  same mirrors as the map, its positions do not depend on the insertion order of the map,
  and for positions \<open>[3, 1, 2]\<close> they are \<open>[1, 2, 3]\<close>. \<open>autoCompleteProject\<close> and
  \<open>autoCompleteStack\<close> hand over the values of their map in insertion order.
\<close>

theorem autoComplete_candidate_order:
  assumes "mapGet projectsList projectId = Some projectInfo"
  shows "autoCompleteMirror env partial off mirrorsList =
           \<lparr>offset = off,
            completions = getPrefixMatchesWithDescriptions env partial
              (map (\<lambda>x. (toString (m_id x), m_title x)) (mirrorCandidates mirrorsList))\<rparr> \<and>
         sorted (map position (mirrorCandidates mirrorsList)) \<and>
         mset (mirrorCandidates mirrorsList) = mset (map snd mirrorsList) \<and>
         (mset (map snd mirrorsList') = mset (map snd mirrorsList) \<longrightarrow>
            map position (mirrorCandidates mirrorsList') =
            map position (mirrorCandidates mirrorsList)) \<and>
         (map position (map snd mirrorsList) = [3, 1, 2] \<longrightarrow>
            map position (mirrorCandidates mirrorsList) = [1, 2, 3]) \<and>
         autoCompleteProject env partial off projectsList =
           \<lparr>offset = off,
            completions = getPrefixMatchesWithDescriptions env partial
              (map (\<lambda>x. (toString (p_id x) @ ''/'', p_title x)) (map snd projectsList))\<rparr> \<and>
         autoCompleteStack env partial projectId off projectsList =
           Inr \<lparr>offset = off,
                completions = getPrefixMatchesWithDescriptions env partial
                  (map (\<lambda>x. (toString (s_id x) @ ''/'', s_title x @ '': '' @ comment x))
                     (map snd (stacks projectInfo)))\<rparr>"
proof -
  have 1: "sorted (map position (mirrorCandidates mirrorsList))"
    by (simp add: map_position_mirrorCandidates)
  have 2: "mset (mirrorCandidates mirrorsList) = mset (map snd mirrorsList)"
    by (simp add: mirrorCandidates_def mapValues_def)
  have 3: "map position (mirrorCandidates mirrorsList') =
           map position (mirrorCandidates mirrorsList)"
    if "mset (map snd mirrorsList') = mset (map snd mirrorsList)"
  proof -
    from that have "mset (map position (mapValues mirrorsList')) =
                    mset (map position (mapValues mirrorsList))"
      unfolding mapValues_def by (metis mset_map)
    then show ?thesis
      unfolding map_position_mirrorCandidates
      by (metis properties_for_sort sorted_sort mset_sort)
  qed
  have 4: "map position (mirrorCandidates mirrorsList) = [1, 2, 3]"
    if "map position (map snd mirrorsList) = [3, 1, 2]"
    using that by (simp add: map_position_mirrorCandidates mapValues_def)
  show ?thesis
    using assms 1 2 3 4
    by (simp add: autoCompleteMirror_def autoCompleteProject_def autoCompleteStack_def
        projectCandidates_def stackCandidates_def mapValues_def)
qed

theorem autoComplete_candidate_order_witness:
  "mapGet exProjects ''1'' = Some (snd (hd exProjects)) \<and>
   mset (map snd (rev exMirrors)) = mset (map snd exMirrors) \<and>
   map position (map snd exMirrors) = [3, 1, 2] \<and>
   map position (mirrorCandidates exMirrors) = [1, 2, 3] \<and>
   map position (mirrorCandidates (rev exMirrors)) = [1, 2, 3] \<and>
   completions (autoCompleteMirror exEnvOffline '''' 0 exMirrors) =
     [(''11'', ''mirror''), (''12'', ''mirror''), (''10'', ''mirror'')]"
proof -
  have h: "mapGet exProjects ''1'' = Some (snd (hd exProjects))"
    by (simp add: exProjects_def mapGet_def)
  have p: "mset (map snd (rev exMirrors)) = mset (map snd exMirrors)"
    by (simp add: rev_map [symmetric])
  have q: "map position (map snd exMirrors) = [3, 1, 2]"
    by (simp add: exMirrors_def exMirror_def)
  have s: "toString 11 = ''11''" "toString 12 = ''12''" "toString 10 = ''10''"
    by code_simp+
  from autoComplete_candidate_order [OF h, of exEnvOffline "''''" 0 exMirrors "rev exMirrors"] p q
  have "map position (mirrorCandidates exMirrors) = [1, 2, 3]"
    and "map position (mirrorCandidates (rev exMirrors)) = [1, 2, 3]"
    and "completions (autoCompleteMirror exEnvOffline '''' 0 exMirrors) =
           map (\<lambda>x. (toString (m_id x), m_title x)) (mirrorCandidates exMirrors)"
    by (simp_all add: exEnvOffline_def)
  moreover have "map (\<lambda>x. (toString (m_id x), m_title x)) (mirrorCandidates exMirrors) =
      [(''11'', ''mirror''), (''12'', ''mirror''), (''10'', ''mirror'')]"
    by (simp add: exMirrors_def exMirror_def mirrorCandidates_def mapValues_def s)
  ultimately show ?thesis
    using h p q by simp
qed

subsection \<open>Pyramid descriptor builder\<close>



lemma zoomLevel_levelSource [simp]:
  "zoomLevel (parameters (levelSource si mirror opts L)) = L"
  by (simp add: levelSource_def split: prod.splits)


subsection \<open>Single-precision storage\<close>












subsection \<open>Geometry of the pyramid levels\<close>








subsection \<open>The backtracking matcher\<close>

text \<open>The matcher is sound and complete for the declarative reading of a pattern: it
  finds a match exactly when the input is a concatenation of texts that the pieces accept,
  and what it returns is such a decomposition.\<close>

lemma firstSome_SomeD:
  "firstSome f xs = Some y \<Longrightarrow> \<exists>x \<in> set xs. f x = Some y"
  by (induction xs) (auto split: option.splits)

lemma firstSome_not_None:
  "x \<in> set xs \<Longrightarrow> f x \<noteq> None \<Longrightarrow> firstSome f xs \<noteq> None"
  by (induction xs) (auto split: option.splits)

lemma take_takeWhile_all:
  assumes "k \<le> length (takeWhile P s)"
  shows "list_all P (take k s)"
proof -
  have "take k s = take k (takeWhile P s)"
    using assms by (metis append_eq_conv_conj takeWhile_dropWhile_id take_append take_all_iff
        append_take_drop_id min.absorb2 take_take diff_is_0_eq' take0 append.right_neutral)
  then show ?thesis
    by (metis in_set_takeD list_all_iff set_takeWhileD)
qed

lemma length_takeWhile_append:
  assumes "list_all P m"
  shows "length m \<le> length (takeWhile P (m @ r))"
proof -
  have "takeWhile P (m @ r) = m @ takeWhile P r"
    using assms by (simp add: list_all_iff takeWhile_append2)
  then show ?thesis by simp
qed

lemma matchPieces_sound:
  "matchPieces ps s = Some ms \<Longrightarrow> concat ms = s \<and> list_all2 accepts ps ms"
proof (induction ps s arbitrary: ms rule: matchPieces.induct)
  case (1 s)
  then show ?case by (simp split: if_splits)
next
  case (2 l ps s)
  from "2.prems" obtain ms' where t: "take (length l) s = l"
    and m: "matchPieces ps (drop (length l) s) = Some ms'" and ms: "ms = l # ms'"
    by (auto split: if_splits)
  from "2.IH" [OF t m] have "concat ms' = drop (length l) s" "list_all2 accepts ps ms'"
    by simp_all
  with t ms show ?case
    by (metis accepts.simps(1) append_take_drop_id concat.simps(2) list_all2_Cons)
next
  case (3 ls ps s)
  from "3.prems" have "firstSome (\<lambda>l. if take (length l) s = l
             then map_option ((#) l) (matchPieces ps (drop (length l) s)) else None) ls = Some ms"
    by (simp only: matchPieces.simps)
  from firstSome_SomeD [OF this]
  obtain l where l: "l \<in> set ls"
    and f: "(if take (length l) s = l
             then map_option ((#) l) (matchPieces ps (drop (length l) s)) else None) = Some ms"
    by blast
  then obtain ms' where t: "take (length l) s = l"
    and m: "matchPieces ps (drop (length l) s) = Some ms'" and ms: "ms = l # ms'"
    by (auto split: if_splits)
  from "3.IH" [OF t m] have "concat ms' = drop (length l) s" "list_all2 accepts ps ms'"
    by simp_all
  with t ms l show ?case
    by (metis accepts.simps(2) append_take_drop_id concat.simps(2) list_all2_Cons)
next
  case (4 c ps s)
  from "4.prems" have "firstSome (\<lambda>k. map_option ((#) (take k s)) (matchPieces ps (drop k s)))
       (rev [0 ..< Suc (length (takeWhile (inClass c) s))]) = Some ms"
    by (simp only: matchPieces.simps)
  from firstSome_SomeD [OF this]
  obtain k where k: "k \<in> set (rev [0 ..< Suc (length (takeWhile (inClass c) s))])"
    and f: "map_option ((#) (take k s)) (matchPieces ps (drop k s)) = Some ms"
    by blast
  then obtain ms' where m: "matchPieces ps (drop k s) = Some ms'" and ms: "ms = take k s # ms'"
    by auto
  from "4.IH" [OF m] have i: "concat ms' = drop k s" "list_all2 accepts ps ms'"
    by simp_all
  from k have "k \<le> length (takeWhile (inClass c) s)"
    by (simp add: less_Suc_eq_le del: upt_Suc)
  then have "list_all (inClass c) (take k s)"
    by (rule take_takeWhile_all)
  with i ms show ?case
    by simp
next
  case (5 c ps s)
  from "5.prems" have "firstSome (\<lambda>k. map_option ((#) (take k s)) (matchPieces ps (drop k s)))
       (rev [1 ..< Suc (length (takeWhile (inClass c) s))]) = Some ms"
    by (simp only: matchPieces.simps)
  from firstSome_SomeD [OF this]
  obtain k where k: "k \<in> set (rev [1 ..< Suc (length (takeWhile (inClass c) s))])"
    and f: "map_option ((#) (take k s)) (matchPieces ps (drop k s)) = Some ms"
    by blast
  then obtain ms' where m: "matchPieces ps (drop k s) = Some ms'" and ms: "ms = take k s # ms'"
    by auto
  from "5.IH" [OF m] have i: "concat ms' = drop k s" "list_all2 accepts ps ms'"
    by simp_all
  from k have kk: "1 \<le> k" "k \<le> length (takeWhile (inClass c) s)"
    by (simp_all add: less_Suc_eq_le del: upt_Suc)
  then have a: "list_all (inClass c) (take k s)"
    by (simp add: take_takeWhile_all)
  have "k \<le> length s"
    using kk(2) length_takeWhile_le [of "inClass c" s] by linarith
  with kk(1) have "take k s \<noteq> []"
    by auto
  with a i ms show ?case
    by simp
qed

lemma matchPieces_complete:
  "list_all2 accepts ps ms \<Longrightarrow> matchPieces ps (concat ms) \<noteq> None"
proof (induction ps ms rule: list_all2_induct)
  case Nil
  then show ?case by simp
next
  case (Cons p ps m ms)
  show ?case
  proof (cases p)
    case (Lit l)
    with Cons show ?thesis by auto
  next
    case (Alt ls)
    with Cons have "m \<in> set ls" by simp
    moreover have "(if take (length m) (concat (m # ms)) = m
             then map_option ((#) m) (matchPieces ps (drop (length m) (concat (m # ms)))) else None) \<noteq> None"
      using Cons.IH by simp
    ultimately show ?thesis
      unfolding Alt matchPieces.simps by (rule firstSome_not_None)
  next
    case (Star c)
    with Cons have a: "list_all (inClass c) m" by simp
    then have "length m \<le> length (takeWhile (inClass c) (concat (m # ms)))"
      by (simp add: length_takeWhile_append)
    then have "length m \<in> set (rev [0 ..< Suc (length (takeWhile (inClass c) (concat (m # ms))))])"
      by (simp add: less_Suc_eq_le del: upt_Suc)
    moreover have "map_option ((#) (take (length m) (concat (m # ms))))
        (matchPieces ps (drop (length m) (concat (m # ms)))) \<noteq> None"
      using Cons.IH by simp
    ultimately show ?thesis
      unfolding Star matchPieces.simps by (rule firstSome_not_None)
  next
    case (Plus c)
    with Cons have a: "list_all (inClass c) m" "m \<noteq> []" by simp_all
    then have "length m \<le> length (takeWhile (inClass c) (concat (m # ms)))"
      by (simp add: length_takeWhile_append)
    moreover have "1 \<le> length m"
      using a(2) by (simp add: Suc_le_eq)
    ultimately have "length m \<in> set (rev [1 ..< Suc (length (takeWhile (inClass c) (concat (m # ms))))])"
      by (simp add: less_Suc_eq_le del: upt_Suc)
    moreover have "map_option ((#) (take (length m) (concat (m # ms))))
        (matchPieces ps (drop (length m) (concat (m # ms)))) \<noteq> None"
      using Cons.IH by simp
    ultimately show ?thesis
      unfolding Plus matchPieces.simps by (rule firstSome_not_None)
  qed
qed

subsection \<open>The two URL patterns\<close>

lemma matchUrlPattern_SomeD:
  assumes "matchUrlPattern url = Some (m1, path)"
  shows "\<exists>scheme host. (scheme = ''http'' \<or> scheme = ''https'') \<and>
           m1 = scheme @ ''://'' @ host \<and> host \<noteq> [] \<and>
           CHR ''/'' \<notin> set host \<and> CHR ''?'' \<notin> set host \<and>
           url = m1 @ ''/'' @ path \<and> list_all (inClass Dot) path"
proof -
  from assms obtain scheme sep host slash rest where
    m: "matchPieces urlPattern url = Some [scheme, sep, host, slash, rest]"
    and r: "m1 = scheme @ sep @ host" "path = rest"
    by (auto simp: matchUrlPattern_def split: option.splits list.splits)
  from matchPieces_sound [OF m]
  have c: "concat [scheme, sep, host, slash, rest] = url"
    and a: "list_all2 accepts urlPattern [scheme, sep, host, slash, rest]"
    by simp_all
  from a have "(scheme = ''http'' \<or> scheme = ''https'')" "sep = ''://''" "host \<noteq> []"
    "list_all (inClass (NoneOf ''/?'')) host" "slash = ''/''" "list_all (inClass Dot) rest"
    by (auto simp: urlPattern_def)
  with c r show ?thesis
    by (auto simp: list_all_iff)
qed

lemma matchUrlPattern_NoneD:
  assumes "matchUrlPattern url = None"
    and "scheme = ''http'' \<or> scheme = ''https''"
    and "host \<noteq> []" "CHR ''/'' \<notin> set host" "CHR ''?'' \<notin> set host"
    and "list_all (inClass Dot) rest"
  shows "url \<noteq> scheme @ ''://'' @ host @ ''/'' @ rest"
proof
  assume u: "url = scheme @ ''://'' @ host @ ''/'' @ rest"
  have "list_all2 accepts urlPattern [scheme, ''://'', host, ''/'', rest]"
    using assms(2-) by (auto simp: urlPattern_def list_all_iff)
  from matchPieces_complete [OF this] obtain ms where
    m: "matchPieces urlPattern url = Some ms"
    using u by auto
  from matchPieces_sound [OF m] have "list_all2 accepts urlPattern ms"
    by simp
  then obtain a b c d e where "ms = [a, b, c, d, e]"
    by (auto simp: urlPattern_def list_all2_Cons1)
  with m assms(1) show False
    by (simp add: matchUrlPattern_def)
qed

lemma matchUrlPatternComplete_SomeD:
  assumes "matchUrlPatternComplete path = Some (url, project, stack, mirror)"
  shows "\<exists>scheme base. (scheme = ''http'' \<or> scheme = ''https'') \<and>
           url = scheme @ ''://'' @ base \<and> base \<noteq> [] \<and> CHR ''?'' \<notin> set base \<and>
           path = url @ ''/'' @ project @ ''/'' @ stack @ ''/'' @ mirror \<and>
           list_all (inClass Dot) project \<and> list_all (inClass Dot) stack \<and>
           list_all (inClass Dot) mirror"
proof -
  from assms obtain scheme sep base s1 s2 s3 where
    m: "matchPieces urlPatternComplete path =
          Some [scheme, sep, base, s1, project, s2, stack, s3, mirror]"
    and r: "url = scheme @ sep @ base"
    by (auto simp: matchUrlPatternComplete_def split: option.splits list.splits)
  from matchPieces_sound [OF m]
  have c: "concat [scheme, sep, base, s1, project, s2, stack, s3, mirror] = path"
    and a: "list_all2 accepts urlPatternComplete
              [scheme, sep, base, s1, project, s2, stack, s3, mirror]"
    by simp_all
  from a have "(scheme = ''http'' \<or> scheme = ''https'')" "sep = ''://''" "base \<noteq> []"
    "list_all (inClass (NoneOf ''?'')) base" "s1 = ''/''" "s2 = ''/''" "s3 = ''/''"
    "list_all (inClass Dot) project" "list_all (inClass Dot) stack"
    "list_all (inClass Dot) mirror"
    by (auto simp: urlPatternComplete_def)
  with c r show ?thesis
    by (auto simp: list_all_iff)
qed

lemma matchUrlPatternComplete_NoneD:
  assumes "matchUrlPatternComplete path = None"
    and "scheme = ''http'' \<or> scheme = ''https''"
    and "base \<noteq> []" "CHR ''?'' \<notin> set base"
    and "list_all (inClass Dot) project" "list_all (inClass Dot) stack"
      "list_all (inClass Dot) mirror"
  shows "path \<noteq> scheme @ ''://'' @ base @ ''/'' @ project @ ''/'' @ stack @ ''/'' @ mirror"
proof
  assume u: "path = scheme @ ''://'' @ base @ ''/'' @ project @ ''/'' @ stack @ ''/'' @ mirror"
  have "list_all2 accepts urlPatternComplete
          [scheme, ''://'', base, ''/'', project, ''/'', stack, ''/'', mirror]"
    using assms(2-) by (auto simp: urlPatternComplete_def list_all_iff)
  from matchPieces_complete [OF this] obtain ms where
    m: "matchPieces urlPatternComplete path = Some ms"
    using u by auto
  from matchPieces_sound [OF m] have "list_all2 accepts urlPatternComplete ms"
    by simp
  then obtain a b c d e f g h i where "ms = [a, b, c, d, e, f, g, h, i]"
    by (auto simp: urlPatternComplete_def list_all2_Cons1)
  with m assms(1) show False
    by (simp add: matchUrlPatternComplete_def)
qed

subsection \<open>Volume resolution and the entry point of completion\<close>

lemma toString_5: "toString 5 = ''5''"
  by code_simp

lemma exEnvStack_parse:
  "sendHttpRequest exEnvStack
     \<lparr>req_hostnames = [''http://host''], req_path = ''/1/stack/3/info''\<rparr> = Inr j
   \<Longrightarrow> parseStackInfo (Some j) = Inr exStackInfo"
  using toString_5 by (auto simp add: exEnvStack_def parseStackInfo_def verifyObject_def verifyObjectVec_def verifyObjectProperty_def
     verifyIntAsNumber_def verifyInt_def verifyFloat_def parseArray_def parseStackMirror_def verifyString_def exStackInfo_def)

text \<open>
  Claim C10. For every url that is not of the form \<^verbatim>\<open>http://host/...\<close> or
  \<^verbatim>\<open>https://host/...\<close> (a non-empty host without slash or question mark, followed by a
  slash), \<open>volumeCompleter\<close> starts no metadata lookup and returns a promise rejected
  with the value \<^verbatim>\<open>null\<close>, which is not an \<open>Error\<close>.
\<close>

theorem volumeCompleter_rejects_with_null:
  assumes "\<not> (\<exists>scheme host rest. (scheme = ''http'' \<or> scheme = ''https'') \<and> host \<noteq> [] \<and>
              CHR ''/'' \<notin> set host \<and> CHR ''?'' \<notin> set host \<and>
              url = scheme @ ''://'' @ host @ ''/'' @ rest)"
  shows "volumeCompleter env url = ([], Inl RejectNull)"
proof (cases "matchUrlPattern url")
  case None
  then show ?thesis
    by (simp add: volumeCompleter_def)
next
  case (Some a)
  obtain m1 path where "a = (m1, path)"
    by (cases a)
  with Some have "matchUrlPattern url = Some (m1, path)"
    by simp
  from matchUrlPattern_SomeD [OF this] obtain scheme host where
    d: "scheme = ''http'' \<or> scheme = ''https''" "host \<noteq> []"
      "CHR ''/'' \<notin> set host" "CHR ''?'' \<notin> set host"
    and u: "m1 = scheme @ ''://'' @ host" "url = m1 @ ''/'' @ path"
    by blast
  from u have "url = scheme @ ''://'' @ host @ ''/'' @ path"
    by simp
  with d have "\<exists>scheme host rest. (scheme = ''http'' \<or> scheme = ''https'') \<and> host \<noteq> [] \<and>
              CHR ''/'' \<notin> set host \<and> CHR ''?'' \<notin> set host \<and>
              url = scheme @ ''://'' @ host @ ''/'' @ rest"
    by blast
  with assms show ?thesis
    by (rule notE)
qed

theorem volumeCompleter_rejects_with_null_witness:
  "\<not> (\<exists>scheme host rest. (scheme = ''http'' \<or> scheme = ''https'') \<and> host \<noteq> [] \<and>
              CHR ''/'' \<notin> set host \<and> CHR ''?'' \<notin> set host \<and>
              ''http://host'' = scheme @ ''://'' @ host @ ''/'' @ rest) \<and>
   volumeCompleter exEnvOffline ''http://host'' = ([], Inl RejectNull)"
proof -
  have h: "\<not> (\<exists>scheme host rest. (scheme = ''http'' \<or> scheme = ''https'') \<and> host \<noteq> [] \<and>
              CHR ''/'' \<notin> set host \<and> CHR ''?'' \<notin> set host \<and>
              ''http://host'' = scheme @ ''://'' @ host @ ''/'' @ rest)"
  proof
    assume "\<exists>scheme host rest. (scheme = ''http'' \<or> scheme = ''https'') \<and> host \<noteq> [] \<and>
              CHR ''/'' \<notin> set host \<and> CHR ''?'' \<notin> set host \<and>
              ''http://host'' = scheme @ ''://'' @ host @ ''/'' @ rest"
    then obtain scheme host rest where s: "scheme = ''http'' \<or> scheme = ''https''"
      and e: "''http://host'' = scheme @ ''://'' @ host @ ''/'' @ rest"
      by blast
    from s show False
    proof
      assume "scheme = ''http''"
      with e have eq: "''host'' = host @ ''/'' @ rest"
        by simp
      have "CHR ''/'' \<in> set (host @ ''/'' @ rest)"
        by simp
      then have "CHR ''/'' \<in> set ''host''"
        by (simp only: eq [symmetric])
      then show False
        by simp
    next
      assume "scheme = ''https''"
      with e show False
        by simp
    qed
  qed
  from h volumeCompleter_rejects_with_null [OF h, of exEnvOffline] show ?thesis
    by simp
qed

text \<open>
  Claim C6, as stated, fails: a path with four trailing segments after the host is not of
  the form \<^verbatim>\<open>http(s)://host/project/stack/mirror\<close>, and \<open>getVolume\<close> does not throw
  on it (the first group of the pattern, \<^verbatim>\<open>[^?]+\<close>, takes the host together with the
  first segment).
\<close>

theorem getVolume_four_segments_counterexample:
  "\<not> matchesGrammar ''http://host/a/b/c/d'' \<and>
   \<not> isl (getVolume exEnvOffline ''http://host/a/b/c/d'')"
proof -
  have "split CHR ''/'' ''http://host/a/b/c/d'' = [''http:'', [], ''host'', ''a'', ''b'', ''c'', ''d'']"
    by code_simp
  then have "\<not> matchesGrammar ''http://host/a/b/c/d''"
    by (simp add: matchesGrammar_def)
  moreover have "matchUrlPatternComplete ''http://host/a/b/c/d'' = Some (''http://host/a'', ''b'', ''c'', ''d'')"
    by code_simp
  then have "\<not> isl (getVolume exEnvOffline ''http://host/a/b/c/d'')"
    by (simp add: getVolume_def)
  ultimately show ?thesis
    by simp
qed

text \<open>
  Claim C6, amended. For a path without line terminators, \<open>getVolume\<close> throws exactly
  when the path is not of the form \<^verbatim>\<open>http(s)://base/project/stack/mirror\<close> with a
  non-empty base free of question marks, where the base may itself contain slashes (so
  that three or more trailing segments after the host are accepted); and when it throws,
  the error is ``Invalid catmaid tile path'' followed by the quoted path.
\<close>

theorem getVolume_throws_iff:
  assumes "list_all (inClass Dot) path"
  shows "(isl (getVolume env path) \<longleftrightarrow>
            \<not> (\<exists>scheme base project stack mirror.
                  (scheme = ''http'' \<or> scheme = ''https'') \<and> base \<noteq> [] \<and> CHR ''?'' \<notin> set base \<and>
                  path = scheme @ ''://'' @ base @ ''/'' @ project @ ''/'' @ stack @ ''/'' @ mirror)) \<and>
         (isl (getVolume env path) \<longleftrightarrow>
            getVolume env path = Inl (Error (''Invalid catmaid tile path '' @ jsonStringify path)))"
proof (cases "matchUrlPatternComplete path")
  case None
  have "path \<noteq> scheme @ ''://'' @ base @ ''/'' @ project @ ''/'' @ stack @ ''/'' @ mirror"
    if "scheme = ''http'' \<or> scheme = ''https''" "base \<noteq> []" "CHR ''?'' \<notin> set base"
    for scheme base project stack mirror
  proof
    assume p: "path = scheme @ ''://'' @ base @ ''/'' @ project @ ''/'' @ stack @ ''/'' @ mirror"
    with assms have "list_all (inClass Dot) project" "list_all (inClass Dot) stack"
      "list_all (inClass Dot) mirror"
      by simp_all
    from matchUrlPatternComplete_NoneD [OF None that this] p show False
      by simp
  qed
  then have "\<not> (\<exists>scheme base project stack mirror.
                  (scheme = ''http'' \<or> scheme = ''https'') \<and> base \<noteq> [] \<and> CHR ''?'' \<notin> set base \<and>
                  path = scheme @ ''://'' @ base @ ''/'' @ project @ ''/'' @ stack @ ''/'' @ mirror)"
    by blast
  moreover have "getVolume env path = Inl (Error (''Invalid catmaid tile path '' @ jsonStringify path))"
    using None by (simp add: getVolume_def)
  ultimately show ?thesis
    by simp
next
  case (Some a)
  obtain url project stack mirror where "a = (url, project, stack, mirror)"
    by (cases a)
  with Some have m: "matchUrlPatternComplete path = Some (url, project, stack, mirror)"
    by simp
  from matchUrlPatternComplete_SomeD [OF m] obtain scheme base where
    d: "scheme = ''http'' \<or> scheme = ''https''" "base \<noteq> []" "CHR ''?'' \<notin> set base"
    and u: "url = scheme @ ''://'' @ base"
    and p: "path = url @ ''/'' @ project @ ''/'' @ stack @ ''/'' @ mirror"
    by blast
  from u p have "path = scheme @ ''://'' @ base @ ''/'' @ project @ ''/'' @ stack @ ''/'' @ mirror"
    by simp
  with d have "\<exists>scheme base project stack mirror.
                  (scheme = ''http'' \<or> scheme = ''https'') \<and> base \<noteq> [] \<and> CHR ''?'' \<notin> set base \<and>
                  path = scheme @ ''://'' @ base @ ''/'' @ project @ ''/'' @ stack @ ''/'' @ mirror"
    by blast
  moreover have "\<not> isl (getVolume env path)"
    using m by (simp add: getVolume_def)
  ultimately show ?thesis
    by (simp only: simp_thms) auto
qed

theorem getVolume_throws_iff_witness:
  "list_all (inClass Dot) ''http://host/a/b/c/d'' \<and>
   \<not> isl (getVolume exEnvOffline ''http://host/a/b/c/d'')"
proof -
  have h: "list_all (inClass Dot) ''http://host/a/b/c/d''"
    by simp
  have "''http://host/a/b/c/d'' = ''http'' @ ''://'' @ ''host/a'' @ ''/'' @ ''b'' @ ''/'' @ ''c'' @ ''/'' @ ''d''"
    by simp
  then have "\<exists>scheme base project stack mirror.
       (scheme = ''http'' \<or> scheme = ''https'') \<and> base \<noteq> [] \<and> CHR ''?'' \<notin> set base \<and>
       ''http://host/a/b/c/d'' =
         scheme @ ''://'' @ base @ ''/'' @ project @ ''/'' @ stack @ ''/'' @ mirror"
    by (intro exI [of _ "''http''"] exI [of _ "''host/a''"] exI [of _ "''b''"]
        exI [of _ "''c''"] exI [of _ "''d''"]) simp
  with getVolume_throws_iff [OF h, of exEnvOffline] h show ?thesis
    by blast
qed

text \<open>
  Claim C9. \<open>getVolume\<close> consults only the stack info: for a path that matches the
  pattern, the one metadata lookup is \<open>getStackInfo\<close>, whatever its outcome; when the
  stack info request and parse succeed, the promise is fulfilled with a
  \<open>MultiscaleTileSource\<close> that holds the mirror segment unchecked; and when the mirror is
  not a key of the stack's mirrors map, it is \<open>getSources\<close> on that source which fails,
  with ``Unable to find mirror''.
\<close>

theorem getVolume_defers_mirror_check:
  assumes "matchUrlPatternComplete path = Some (url, project, stack, mirror)"
  shows "\<exists>outcome.
           getVolume env path =
             Inr ([CallStackInfo url (jsNumber env project) (jsNumber env stack)], outcome) \<and>
           (\<forall>j si.
              sendHttpRequest env
                \<lparr>req_hostnames = [url],
                 req_path = ''/'' @ jsString env (jsNumber env project) @ ''/stack/''
                              @ jsString env (jsNumber env stack) @ ''/info''\<rparr> = Inr j \<and>
              parseStackInfo (Some j) = Inr si \<longrightarrow>
              outcome = Inr \<lparr>src_url = url, stackInfo = si, mirrorId = mirror\<rparr> \<and>
              (mapGet (mirrors si) mirror = None \<longrightarrow>
                 getSources \<lparr>src_url = url, stackInfo = si, mirrorId = mirror\<rparr> opts =
                   Inl (Error (''Unable to find mirror '' @ mirror @ '' for stack''))))"
  using assms by (simp add: getVolume_def getStackInfo_def thenP_def getSources_def)

theorem getVolume_defers_mirror_check_witness:
  "matchUrlPatternComplete ''http://host/1/3/99'' = Some (''http://host'', ''1'', ''3'', ''99'') \<and>
   parseStackInfo (Some (projr (sendHttpRequest exEnvStack
     \<lparr>req_hostnames = [''http://host''], req_path = ''/1/stack/3/info''\<rparr>))) = Inr exStackInfo \<and>
   mapGet (mirrors exStackInfo) ''99'' = None \<and>
   getVolume exEnvStack ''http://host/1/3/99'' =
     Inr ([CallStackInfo ''http://host'' 1 3],
          Inr \<lparr>src_url = ''http://host'', stackInfo = exStackInfo, mirrorId = ''99''\<rparr>) \<and>
   getSources \<lparr>src_url = ''http://host'', stackInfo = exStackInfo, mirrorId = ''99''\<rparr> () =
     Inl (Error ''Unable to find mirror 99 for stack'')"
proof -
  have m: "matchUrlPatternComplete ''http://host/1/3/99'' = Some (''http://host'', ''1'', ''3'', ''99'')"
    by code_simp
  have n: "jsNumber exEnvStack ''1'' = 1" "jsNumber exEnvStack ''3'' = 3"
    "jsString exEnvStack 1 = ''1''" "jsString exEnvStack 3 = ''3''"
    by (simp_all add: exEnvStack_def) code_simp+
  obtain j where j: "sendHttpRequest exEnvStack
     \<lparr>req_hostnames = [''http://host''], req_path = ''/1/stack/3/info''\<rparr> = Inr j"
    by (simp add: exEnvStack_def)
  have p: "parseStackInfo (Some j) = Inr exStackInfo"
    using j by (rule exEnvStack_parse)
  have a: "mapGet (mirrors exStackInfo) ''99'' = None"
    by (simp add: exStackInfo_def mapGet_def)
  from getVolume_defers_mirror_check [OF m, of exEnvStack "()"] obtain outcome where
    g: "getVolume exEnvStack ''http://host/1/3/99'' = Inr ([CallStackInfo ''http://host'' 1 3], outcome)"
    and o: "\<And>j si. sendHttpRequest exEnvStack
             \<lparr>req_hostnames = [''http://host''], req_path = ''/1/stack/3/info''\<rparr> = Inr j \<Longrightarrow>
           parseStackInfo (Some j) = Inr si \<Longrightarrow>
           outcome = Inr \<lparr>src_url = ''http://host'', stackInfo = si, mirrorId = ''99''\<rparr> \<and>
           (mapGet (mirrors si) ''99'' = None \<longrightarrow>
              getSources \<lparr>src_url = ''http://host'', stackInfo = si, mirrorId = ''99''\<rparr> () =
                Inl (Error ''Unable to find mirror 99 for stack''))"
    unfolding n by auto
  from o [OF j p] a g m p j show ?thesis
    by simp
qed

subsection \<open>Path resolver and completer\<close>

lemma split_not_Nil [simp]: "split c s \<noteq> []"
  by (induction s) (auto split: list.splits)

lemma pop_split:
  "pop (split c s) = (Some (last (split c s)), butlast (split c s))"
  by (simp add: pop_def)

lemma last_split_append:
  "last (split c (a @ c # b)) = last (split c b)"
proof (induction a)
  case Nil
  then show ?case by simp
next
  case (Cons x a)
  obtain seg segs where s: "split c (a @ c # b) = seg # segs"
    by (cases "split c (a @ c # b)") simp_all
  have ne: "segs \<noteq> []"
  proof
    assume "segs = []"
    with s have "split c (a @ c # b) = [seg]" by simp
    moreover have "length (split c (a @ c # b)) \<ge> 2"
    proof (induction a)
      case Nil
      have "split c b \<noteq> []" by simp
      then show ?case
        by (cases "split c b") simp_all
    next
      case (Cons y a)
      then show ?case
        by (cases "split c (a @ c # b)") auto
    qed
    ultimately show False by simp
  qed
  show ?case
  proof (cases "x = c")
    case True
    then show ?thesis
      using Cons.IH by simp
  next
    case False
    then have "split c ((x # a) @ c # b) = (x # seg) # segs"
      using s by simp
    with ne s Cons.IH show ?thesis
      by simp
  qed
qed

lemma offset_autoCompleteStack:
  "autoCompleteStack env partial projectId off projectsList = Inr r \<Longrightarrow> offset r = off"
  by (auto simp: autoCompleteStack_def split: option.splits)

lemma thenP_simps [simp]:
  "fst (thenP p f) = fst p" "snd (thenP p f) = bindE (snd p) f"
  by (simp_all add: thenP_def)

lemma catchP_Inr: "snd p = Inr a \<Longrightarrow> catchP p h = p"
  by (cases p) (simp add: catchP_def)

lemma catchP_Inl: "snd p = Inl e \<Longrightarrow> catchP p h = (fst p @ fst (h e), snd (h e))"
  by (simp add: catchP_def)

text \<open>The cascade, one attempt at a time: \<open>p1\<close>, \<open>p2\<close> and \<open>p3\<close> are the project, stack
  and mirror interpretations of the path.\<close>

lemma completer_cascade:
  fixes env :: "('n, 'c) env"
  assumes segs: "segs = split CHR ''/'' path" and n: "n = length segs"
    and host: "host = hostname0 hostnames"
    and off: "off = int (length path) - int (length (last segs))"
    and p1: "p1 = thenP (getProjectsList env [join ''/'' (host # take (n - 1) segs)])
                    (\<lambda>pl. Inr (autoCompleteProject env (last segs) off pl))"
    and p2: "p2 = thenP (getProjectsList env [join ''/'' (host # take (n - 2) segs)])
                    (\<lambda>pl. autoCompleteStack env (last segs) (segs ! (n - 2)) off pl)"
    and p3: "p3 = thenP (getStackInfo env (join ''/'' (host # take (n - 3) segs))
                           (jsNumber env (segs ! (n - 3))) (jsNumber env (segs ! (n - 2))))
                    (\<lambda>si. Inr (autoCompleteMirror env (last segs) off (mirrors si)))"
  shows "projectStackMirrorCompleter env hostnames path =
           (if \<not> isl (snd p1) \<or> n < 2 then p1
            else if \<not> isl (snd p2) \<or> n < 3 then (fst p1 @ fst p2, snd p2)
            else (fst p1 @ fst p2 @ fst p3, snd p3))"
proof -
  have ne: "segs \<noteq> []"
    by (simp add: segs)
  then have n1: "1 \<le> n"
    by (simp add: n Suc_le_eq)
  have b1: "butlast segs = take (n - 1) segs"
    by (simp add: butlast_conv_take n)
  have b2: "butlast (butlast segs) = take (n - 2) segs"
    by (simp add: butlast_conv_take n min_def eval_nat_numeral)
  have b3: "butlast (butlast (butlast segs)) = take (n - 3) segs"
    by (simp add: butlast_conv_take n min_def eval_nat_numeral)
  have e1: "butlast segs \<noteq> [] \<longleftrightarrow> \<not> n < 2"
    using n by (cases segs) auto
  have e2: "butlast (butlast segs) \<noteq> [] \<longleftrightarrow> \<not> n < 3"
    unfolding b2 using n by auto
  have l2: "last (butlast segs) = segs ! (n - 2)" if "\<not> n < 2"
  proof -
    from that have "butlast segs \<noteq> []" by (simp add: e1)
    then have "last (butlast segs) = butlast segs ! (length (butlast segs) - 1)"
      by (rule last_conv_nth)
    also have "\<dots> = segs ! (n - 2)"
      using that n by (simp add: nth_butlast eval_nat_numeral)
    finally show ?thesis .
  qed
  have l3: "last (butlast (butlast segs)) = segs ! (n - 3)" if "\<not> n < 3"
  proof -
    from that have "butlast (butlast segs) \<noteq> []" by (simp add: e2)
    then have "last (butlast (butlast segs)) =
        butlast (butlast segs) ! (length (butlast (butlast segs)) - 1)"
      by (rule last_conv_nth)
    also have "\<dots> = segs ! (n - 3)"
      using that n by (simp add: nth_butlast eval_nat_numeral)
    finally show ?thesis .
  qed
  let ?inner3 = "thenP (getStackInfo env (join ''/'' ([hostname0 hostnames] @ butlast (butlast (butlast segs))))
                     (jsNumber env (last (butlast (butlast segs)))) (jsNumber env (last (butlast segs))))
                  (\<lambda>stackInfo. Inr (autoCompleteMirror env (last segs) off (mirrors stackInfo)))"
  let ?h2 = "\<lambda>stackError. if butlast (butlast segs) \<noteq> [] then ?inner3 else throwP stackError"
  let ?inner2 = "catchP (thenP (getProjectsList env [join ''/'' ([hostname0 hostnames] @ butlast (butlast segs))])
                     (\<lambda>projectsList. autoCompleteStack env (last segs) (last (butlast segs)) off projectsList))
                  ?h2"
  let ?h1 = "\<lambda>projectError. if butlast segs \<noteq> [] then ?inner2 else throwP projectError"
  have unfold: "projectStackMirrorCompleter env hostnames path =
      catchP (thenP (getProjectsList env [join ''/'' ([hostname0 hostnames] @ butlast segs)])
                (\<lambda>projectsList. Inr (autoCompleteProject env (last segs) off projectsList))) ?h1"
    unfolding projectStackMirrorCompleter_def Let_def segs [symmetric] off
    by (simp add: pop_def ne)
  have q1: "thenP (getProjectsList env [join ''/'' ([hostname0 hostnames] @ butlast segs)])
                (\<lambda>projectsList. Inr (autoCompleteProject env (last segs) off projectsList)) = p1"
    by (simp add: p1 b1 host)
  have q2: "thenP (getProjectsList env [join ''/'' ([hostname0 hostnames] @ butlast (butlast segs))])
                     (\<lambda>projectsList. autoCompleteStack env (last segs) (last (butlast segs)) off projectsList) = p2"
    if "\<not> n < 2"
    by (simp add: p2 b2 host l2 [OF that])
  have q3: "?inner3 = p3" if "\<not> n < 3"
  proof -
    from that have "\<not> n < 2" by simp
    then show ?thesis
      by (simp add: p3 b3 host l2 l3 [OF that])
  qed
  show ?thesis
  proof (cases "snd p1")
    case (Inr a)
    then show ?thesis
      unfolding unfold q1 by (simp add: catchP_Inr)
  next
    case e1': (Inl projectError)
    show ?thesis
    proof (cases "n < 2")
      case True
      then have "?h1 projectError = throwP projectError"
        by (simp add: e1)
      then have "projectStackMirrorCompleter env hostnames path = (fst p1 @ [], Inl projectError)"
        unfolding unfold q1 catchP_Inl [OF e1'] by (simp add: throwP_def)
      with True e1' show ?thesis
        by (cases p1) simp
    next
      case n2: False
      then have h1: "?h1 projectError = catchP p2 ?h2"
        using q2 [OF n2] by (simp add: e1)
      show ?thesis
      proof (cases "snd p2")
        case (Inr a)
        then have "catchP p2 ?h2 = p2"
          by (rule catchP_Inr)
        with h1 have "projectStackMirrorCompleter env hostnames path = (fst p1 @ fst p2, snd p2)"
          unfolding unfold q1 catchP_Inl [OF e1'] by simp
        with n2 e1' Inr show ?thesis
          by simp
      next
        case e2': (Inl stackError)
        show ?thesis
        proof (cases "n < 3")
          case True
          then have "?h2 stackError = throwP stackError"
            by (simp add: e2)
          then have "catchP p2 ?h2 = (fst p2, Inl stackError)"
            unfolding catchP_Inl [OF e2'] by (simp add: throwP_def)
          with h1 have "projectStackMirrorCompleter env hostnames path = (fst p1 @ fst p2, snd p2)"
            unfolding unfold q1 catchP_Inl [OF e1'] by (simp add: e2')
          with n2 True e1' e2' show ?thesis
            by simp
        next
          case n3: False
          then have "?h2 stackError = p3"
            using q3 [OF n3] by (simp add: e2)
          then have "catchP p2 ?h2 = (fst p2 @ fst p3, snd p3)"
            unfolding catchP_Inl [OF e2'] by simp
          with h1 have "projectStackMirrorCompleter env hostnames path =
              (fst p1 @ fst p2 @ fst p3, snd p3)"
            unfolding unfold q1 catchP_Inl [OF e1'] by simp
          with n2 n3 e1' e2' show ?thesis
            by simp
        qed
      qed
    qed
  qed
qed

lemma exEnvStack_facts:
  "getProjectsList exEnvStack [''http://host/1/3''] =
     ([CallProjectsList [''http://host/1/3'']], Inl (TransportError ''not found''))"
  "getProjectsList exEnvStack [''http://host/1''] =
     ([CallProjectsList [''http://host/1'']], Inl (TransportError ''not found''))"
  "getStackInfo exEnvStack ''http://host'' 1 3 =
     ([CallStackInfo ''http://host'' 1 3], Inr exStackInfo)"
proof -
  show "getProjectsList exEnvStack [''http://host/1/3''] =
     ([CallProjectsList [''http://host/1/3'']], Inl (TransportError ''not found''))"
    by (simp add: getProjectsList_def exEnvStack_def)
  show "getProjectsList exEnvStack [''http://host/1''] =
     ([CallProjectsList [''http://host/1'']], Inl (TransportError ''not found''))"
    by (simp add: getProjectsList_def exEnvStack_def)
  have t: "toString 1 = ''1''" "toString 3 = ''3''"
    by code_simp+
  obtain j where j: "sendHttpRequest exEnvStack
     \<lparr>req_hostnames = [''http://host''], req_path = ''/1/stack/3/info''\<rparr> = Inr j"
    by (simp add: exEnvStack_def)
  moreover have "jsString exEnvStack 1 = ''1''" "jsString exEnvStack 3 = ''3''"
    by (simp_all add: exEnvStack_def t)
  ultimately show "getStackInfo exEnvStack ''http://host'' 1 3 =
     ([CallStackInfo ''http://host'' 1 3], Inr exStackInfo)"
    using exEnvStack_parse [OF j] by (simp add: getStackInfo_def)
qed

lemma exCompleter_eval:
  "projectStackMirrorCompleter exEnvStack [''http://host''] ''1/3/5'' =
     ([CallProjectsList [''http://host/1/3''], CallProjectsList [''http://host/1''],
       CallStackInfo ''http://host'' 1 3],
      Inr \<lparr>offset = 4, completions = [(''5'', ''main'')]\<rparr>)"
proof -
  have s: "split CHR ''/'' ''1/3/5'' = [''1'', ''3'', ''5'']"
    by code_simp
  have n: "jsNumber exEnvStack ''1'' = 1" "jsNumber exEnvStack ''3'' = 3"
    by (simp_all add: exEnvStack_def)
  have m: "autoCompleteMirror exEnvStack ''5'' 4 (mirrors exStackInfo) =
      \<lparr>offset = 4, completions = [(''5'', ''main'')]\<rparr>"
    by (simp add: autoCompleteMirror_def mirrorCandidates_def mapValues_def exStackInfo_def
        exEnvStack_def toString_5)
  from completer_cascade [OF refl refl refl refl refl refl refl,
      of exEnvStack "[''http://host'']" "''1/3/5''"]
  show ?thesis
    unfolding s by (simp add: hostname0_def n exEnvStack_facts m)
qed

text \<open>
  Claim C1. With \<open>n\<close> the number of segments of the path and \<open>p1\<close>, \<open>p2\<close>, \<open>p3\<close> the
  three interpretations (last segment as partial project id against the projects list of
  the host formed from the other segments; last segment as partial stack id and the one
  before as project id, against a second projects list; last segment as partial mirror id
  against the stack info): the completer returns \<open>p1\<close> when it succeeds or when there is
  one segment only; otherwise \<open>p2\<close> when it succeeds or when there are two segments only;
  otherwise \<open>p3\<close>. So a failure comes out unchanged from the deepest applicable
  interpretation, and the lookups made are those of the interpretations tried, in order:
  a successful interpretation starts no deeper lookup.
\<close>

theorem projectStackMirrorCompleter_cascade:
  "let segs = split CHR ''/'' path;
       n = length segs;
       host = hostname0 hostnames;
       off = int (length path) - int (length (last segs));
       p1 = thenP (getProjectsList env [join ''/'' (host # take (n - 1) segs)])
              (\<lambda>pl. Inr (autoCompleteProject env (last segs) off pl));
       p2 = thenP (getProjectsList env [join ''/'' (host # take (n - 2) segs)])
              (\<lambda>pl. autoCompleteStack env (last segs) (segs ! (n - 2)) off pl);
       p3 = thenP (getStackInfo env (join ''/'' (host # take (n - 3) segs))
                     (jsNumber env (segs ! (n - 3))) (jsNumber env (segs ! (n - 2))))
              (\<lambda>si. Inr (autoCompleteMirror env (last segs) off (mirrors si)))
   in 1 \<le> n \<and>
      fst p1 = [CallProjectsList [join ''/'' (host # take (n - 1) segs)]] \<and>
      fst p2 = [CallProjectsList [join ''/'' (host # take (n - 2) segs)]] \<and>
      fst p3 = [CallStackInfo (join ''/'' (host # take (n - 3) segs))
                  (jsNumber env (segs ! (n - 3))) (jsNumber env (segs ! (n - 2)))] \<and>
      projectStackMirrorCompleter env hostnames path =
        (if \<not> isl (snd p1) \<or> n < 2 then p1
         else if \<not> isl (snd p2) \<or> n < 3 then (fst p1 @ fst p2, snd p2)
         else (fst p1 @ fst p2 @ fst p3, snd p3))"
proof -
  have "1 \<le> length (split CHR ''/'' path)"
    by (simp add: Suc_le_eq)
  with completer_cascade [OF refl refl refl refl refl refl refl, of env hostnames path]
  show ?thesis
    unfolding Let_def by (simp add: getProjectsList_def getStackInfo_def)
qed

theorem projectStackMirrorCompleter_cascade_witness:
  "projectStackMirrorCompleter exEnvStack [''http://host''] ''1/3/5'' =
     ([CallProjectsList [''http://host/1/3''], CallProjectsList [''http://host/1''],
       CallStackInfo ''http://host'' 1 3],
      Inr \<lparr>offset = 4, completions = [(''5'', ''main'')]\<rparr>)"
proof -
  have s: "split CHR ''/'' ''1/3/5'' = [''1'', ''3'', ''5'']"
    by code_simp
  have n: "jsNumber exEnvStack ''1'' = 1" "jsNumber exEnvStack ''3'' = 3"
    by (simp_all add: exEnvStack_def)
  have m: "autoCompleteMirror exEnvStack ''5'' 4 (mirrors exStackInfo) =
      \<lparr>offset = 4, completions = [(''5'', ''main'')]\<rparr>"
    by (simp add: autoCompleteMirror_def mirrorCandidates_def mapValues_def exStackInfo_def
        exEnvStack_def toString_5)
  from projectStackMirrorCompleter_cascade [of "''1/3/5''" "[''http://host'']" exEnvStack] show ?thesis
    unfolding Let_def s
    by (simp add: hostname0_def n exEnvStack_facts m)
qed

lemma completer_offset:
  assumes "snd (projectStackMirrorCompleter env hostnames path) = Inr r"
  shows "offset r = int (length path) - int (length (last (split CHR ''/'' path)))"
proof -
  let ?segs = "split CHR ''/'' path"
  let ?off = "int (length path) - int (length (last ?segs))"
  have a: "offset r = ?off" if "bindE x (\<lambda>pl. Inr (autoCompleteProject env seg ?off pl)) = Inr r"
    for x seg
    using that by (cases x) (auto simp: autoCompleteProject_def)
  have b: "offset r = ?off" if "bindE x (\<lambda>pl. autoCompleteStack env seg pid ?off pl) = Inr r"
    for x seg pid
    using that by (cases x) (auto dest: offset_autoCompleteStack)
  have c: "offset r = ?off" if "bindE x (\<lambda>si. Inr (autoCompleteMirror env seg ?off (mirrors si))) = Inr r"
    for x seg
    using that by (cases x) (auto simp: autoCompleteMirror_def)
  from assms completer_cascade [OF refl refl refl refl refl refl refl, of env hostnames path]
  show ?thesis
    by (auto split: if_splits dest: a b c)
qed

text \<open>
  Claim C5. When the url matches the pattern of \<open>volumeCompleter\<close>, with \<open>m1\<close> the
  scheme and host and \<open>path\<close> the rest, a completion result of the completer has the
  offset \<open>length path - length (last segment)\<close>, whichever interpretation produced it (each
  formatter returns the offset it is given), and \<open>volumeCompleter\<close> adds
  \<open>length m1 + 1\<close>; the sum is the length of the url minus the length of its last
  segment.
\<close>

theorem completion_offset:
  assumes "matchUrlPattern url = Some (m1, path)"
    and "snd (volumeCompleter env url) = Inr r"
  shows "\<exists>r0. snd (projectStackMirrorCompleter env [m1] path) = Inr r0 \<and>
           offset r0 = int (length path) - int (length (last (split CHR ''/'' path))) \<and>
           offset r = offset r0 + (int (length m1) + 1) \<and>
           url = m1 @ ''/'' @ path \<and>
           offset r = int (length url) - int (length (last (split CHR ''/'' url))) \<and>
           offset (autoCompleteProject env seg off projectsList) = off \<and>
           (case autoCompleteStack env seg projectId off projectsList of
              Inl e \<Rightarrow> True | Inr r' \<Rightarrow> offset r' = off) \<and>
           offset (autoCompleteMirror env seg off mirrorsList) = off"
proof -
  have d: "offset (autoCompleteProject env seg off projectsList) = off"
    "case autoCompleteStack env seg projectId off projectsList of
       Inl e \<Rightarrow> True | Inr r' \<Rightarrow> offset r' = off"
    "offset (autoCompleteMirror env seg off mirrorsList) = off"
    by (auto simp: autoCompleteProject_def autoCompleteMirror_def
        split: sum.splits dest: offset_autoCompleteStack)
  from assms obtain r0 where r0: "snd (projectStackMirrorCompleter env [m1] path) = Inr r0"
    and r: "r = applyCompletionOffset (int (length m1) + 1) r0"
    by (cases "snd (projectStackMirrorCompleter env [m1] path)")
      (auto simp: volumeCompleter_def)
  have o: "offset r0 = int (length path) - int (length (last (split CHR ''/'' path)))"
    using r0 by (rule completer_offset)
  have t: "offset r = offset r0 + (int (length m1) + 1)"
    by (simp add: r applyCompletionOffset_def)
  from matchUrlPattern_SomeD [OF assms(1)] have u: "url = m1 @ ''/'' @ path"
    by blast
  then have "last (split CHR ''/'' url) = last (split CHR ''/'' path)"
    by (simp add: last_split_append)
  with o t u have "offset r = int (length url) - int (length (last (split CHR ''/'' url)))"
    by simp
  with r0 o t u d show ?thesis
    by blast
qed

theorem completion_offset_witness:
  "matchUrlPattern ''http://host/1/3/5'' = Some (''http://host'', ''1/3/5'') \<and>
   snd (volumeCompleter exEnvStack ''http://host/1/3/5'') =
     Inr \<lparr>offset = 16, completions = [(''5'', ''main'')]\<rparr> \<and>
   snd (projectStackMirrorCompleter exEnvStack [''http://host''] ''1/3/5'') =
     Inr \<lparr>offset = 4, completions = [(''5'', ''main'')]\<rparr>"
proof -
  have m: "matchUrlPattern ''http://host/1/3/5'' = Some (''http://host'', ''1/3/5'')"
    by code_simp
  have p: "snd (projectStackMirrorCompleter exEnvStack [''http://host''] ''1/3/5'') =
     Inr \<lparr>offset = 4, completions = [(''5'', ''main'')]\<rparr>"
    by (simp add: exCompleter_eval)
  then have v: "snd (volumeCompleter exEnvStack ''http://host/1/3/5'') =
     Inr \<lparr>offset = 16, completions = [(''5'', ''main'')]\<rparr>"
    by (simp add: volumeCompleter_def m applyCompletionOffset_def)
  from completion_offset [OF m v] m v p show ?thesis
    by simp
qed

subsection \<open>The memo table of the metadata fetcher\<close>

lemma wfMemo_empty: "wfMemo emptyMemo"
  by (simp add: wfMemo_def emptyMemo_def)

lemma wfMemo_getUncounted: "wfMemo st \<Longrightarrow> wfMemo (snd (getUncounted st key req))"
  by (auto simp: wfMemo_def getUncounted_def list_all_iff split: option.splits)

lemma wfMemo_settle: "wfMemo st \<Longrightarrow> wfMemo (settle st h r)"
  by (auto simp: wfMemo_def settle_def Let_def list_all_iff)

lemma wfMemo_fresh:
  assumes "wfMemo st"
  shows "map_of (responses st) (length (transportLog st)) = None"
proof (rule ccontr)
  assume "map_of (responses st) (length (transportLog st)) \<noteq> None"
  then obtain r where "(length (transportLog st), r) \<in> set (responses st)"
    by (auto dest: map_of_SomeD)
  with assms show False
    by (auto simp: wfMemo_def list_all_iff)
qed

lemma map_of_filter_key: "map_of (filter (\<lambda>(k, _). k \<noteq> key) m) key = None"
  by (induction m) auto

text \<open>The general statement about one key of the memo table.\<close>

lemma getUncounted_contract:
  fixes st :: "'n memoState" and key :: "'n memoKey" and req :: HttpRequest
  assumes wf: "wfMemo st" and absent: "map_of (memoTable st) key = None"
  defines "h \<equiv> fst (getUncounted st key req)"
  defines "st2 \<equiv> snd (getUncounted (snd (getUncounted st key req)) key req)"
  shows "fst (getUncounted (snd (getUncounted st key req)) key req) = h"
    and "transportLog st2 = transportLog st @ [(key, req)]"
    and "observe st2 h = None"
    and "observe (settle st2 h r) h = Some (parseFor key r)"
    and "isl (parseFor key r) \<Longrightarrow>
           fst (getUncounted (settle st2 h r) key req) \<noteq> h \<and>
           transportLog (snd (getUncounted (settle st2 h r) key req)) =
             transportLog st2 @ [(key, req)]"
    and "\<not> isl (parseFor key r) \<Longrightarrow>
           getUncounted (settle st2 h r) key req = (h, settle st2 h r)"
proof -
  let ?st1 = "st\<lparr>memoTable := (key, length (transportLog st)) # memoTable st,
                  transportLog := transportLog st @ [(key, req)]\<rparr>"
  have g1: "getUncounted st key req = (length (transportLog st), ?st1)"
    using absent by (simp add: getUncounted_def)
  have g2: "getUncounted ?st1 key req = (length (transportLog st), ?st1)"
    by (simp add: getUncounted_def)
  have h: "h = length (transportLog st)" and st2: "st2 = ?st1"
    by (simp_all add: h_def st2_def g1 g2)
  have fresh: "map_of (responses st) (length (transportLog st)) = None"
    using wf by (rule wfMemo_fresh)
  show "fst (getUncounted (snd (getUncounted st key req)) key req) = h"
    by (simp add: g1 g2 h)
  show "transportLog st2 = transportLog st @ [(key, req)]"
    by (simp add: st2)
  show "observe st2 h = None"
    by (simp add: observe_def st2 h fresh)
  have s: "settle st2 h r =
      ?st1\<lparr>responses := (h, r) # responses st,
            memoTable := (if isl (parseFor key r)
                          then filter (\<lambda>(k, _). k \<noteq> key) (memoTable ?st1)
                          else memoTable ?st1)\<rparr>"
    by (simp add: settle_def st2 h fresh Let_def)
  show "observe (settle st2 h r) h = Some (parseFor key r)"
    unfolding s by (simp add: observe_def h)
  show "fst (getUncounted (settle st2 h r) key req) \<noteq> h \<and>
           transportLog (snd (getUncounted (settle st2 h r) key req)) =
             transportLog st2 @ [(key, req)]" if "isl (parseFor key r)"
  proof -
    have "map_of (memoTable (settle st2 h r)) key = None"
      unfolding s using that map_of_filter_key [of key "memoTable st"] by simp
    then have "getUncounted (settle st2 h r) key req =
        (length (transportLog (settle st2 h r)),
         (settle st2 h r)\<lparr>memoTable := (key, length (transportLog (settle st2 h r)))
                                          # memoTable (settle st2 h r),
                          transportLog := transportLog (settle st2 h r) @ [(key, req)]\<rparr>)"
      by (simp add: getUncounted_def)
    moreover have "transportLog (settle st2 h r) = transportLog st2"
      unfolding s by (simp add: st2)
    ultimately show ?thesis
      by (simp add: st2 h)
  qed
  show "getUncounted (settle st2 h r) key req = (h, settle st2 h r)" if "\<not> isl (parseFor key r)"
  proof -
    have "map_of (memoTable (settle st2 h r)) key = Some h"
      unfolding s using that by (simp add: h)
    then show ?thesis
      by (simp add: getUncounted_def)
  qed
qed

lemma memoContract_getUncounted:
  assumes "wfMemo st" and "map_of (memoTable st) key = None"
  shows "memoContract (\<lambda>s. getUncounted s key req) key req st r"
  unfolding memoContract_def Let_def
  by (simp add: getUncounted_contract [OF assms])

text \<open>
  Claim C4. From a well-formed state of the memo table in which the key is not cached,
  two calls of \<open>getStackInfo\<close> with identical arguments (and likewise of
  \<open>getProjectsList\<close> with identical hostnames) before the request is answered return the
  same promise and send exactly one transport request, so both callers observe the same
  result or failure; a failure (of the transport or of the parser) removes the entry, and
  the next identical call sends the request again.
\<close>

theorem memoized_fetch_coalesces_and_retries:
  assumes "wfMemo st"
    and "map_of (memoTable st) (KeyStackInfo hostname projectId stackId) = None"
    and "map_of (memoTable st) (KeyProjectsList hostnames) = None"
  shows "memoContract (\<lambda>s. getStackInfoMemo str s hostname projectId stackId)
           (KeyStackInfo hostname projectId stackId)
           \<lparr>req_hostnames = [hostname],
            req_path = ''/'' @ str projectId @ ''/stack/'' @ str stackId @ ''/info''\<rparr> st r \<and>
         memoContract (\<lambda>s. getProjectsListMemo s hostnames)
           (KeyProjectsList hostnames)
           \<lparr>req_hostnames = hostnames, req_path = ''/projects/''\<rparr> st r'"
  using memoContract_getUncounted [OF assms(1,2)] memoContract_getUncounted [OF assms(1,3)]
  unfolding getStackInfoMemo_def getProjectsListMemo_def by simp

theorem memoized_fetch_coalesces_and_retries_witness:
  "wfMemo (emptyMemo :: int memoState) \<and>
   map_of (memoTable (emptyMemo :: int memoState)) (KeyStackInfo ''http://host'' 1 3) = None \<and>
   map_of (memoTable (emptyMemo :: int memoState)) (KeyProjectsList [''http://host'']) = None \<and>
   memoContract (\<lambda>s. getStackInfoMemo toString s ''http://host'' 1 3)
     (KeyStackInfo ''http://host'' (1 :: int) 3)
     \<lparr>req_hostnames = [''http://host''],
      req_path = ''/'' @ toString 1 @ ''/stack/'' @ toString 3 @ ''/info''\<rparr>
     emptyMemo (Inl (TransportError ''down'')) \<and>
   isl (parseFor (KeyStackInfo ''http://host'' (1 :: int) 3) (Inl (TransportError ''down''))) \<and>
   memoContract (\<lambda>s. getProjectsListMemo s [''http://host''])
     (KeyProjectsList [''http://host''] :: int memoKey)
     \<lparr>req_hostnames = [''http://host''], req_path = ''/projects/''\<rparr>
     emptyMemo (Inr (JArr []))"
proof -
  have h1: "wfMemo (emptyMemo :: int memoState)"
    by (rule wfMemo_empty)
  have h2: "map_of (memoTable (emptyMemo :: int memoState)) (KeyStackInfo ''http://host'' 1 3) = None"
    by (simp add: emptyMemo_def)
  have h3: "map_of (memoTable (emptyMemo :: int memoState)) (KeyProjectsList [''http://host'']) = None"
    by (simp add: emptyMemo_def)
  have f: "isl (parseFor (KeyStackInfo ''http://host'' (1 :: int) 3) (Inl (TransportError ''down'')))"
    by (simp add: parseFor_def)
  from memoized_fetch_coalesces_and_retries [OF h1 h2 h3, of toString
      "Inl (TransportError ''down'')" "Inr (JArr [])"] h1 h2 h3 f
  show ?thesis
    by simp
qed

end
